theory Spec2Isabelle
  imports Main "HOL-Library.Word"
begin

section \<open>Data model\<close>

text \<open>
  Documents of the JSON library the service uses (\<open>nlohmann::json\<close>). An object is
  written as the list of its members; a lookup takes the first member of that name.
  Numbers are integers here: no handler inspects a number.
\<close>

datatype json =
    JNull
  | JBool bool
  | JNum int
  | JStr string
  | JArr "json list"
  | JObj "(string \<times> json) list"

text \<open>
  \<open>struct Job\<close> of \<open>job.hpp\<close>. The field \<open>id\<close> is called \<open>job_id\<close>. The source keeps
  \<open>payload\<close> as the string \<open>dump()\<close> gives for a document and reads it back with
  \<open>json::parse\<close> wherever it is used; the record holds the document itself.
\<close>

record Job =
  job_id :: string
  agent :: string
  model :: string
  priority :: string
  payload :: json

text \<open>
  The private members of \<open>class InMemoryPriorityQueue\<close>: the two deques and the
  \<open>unordered_map\<close> from id to job. The map is a list of entries, one for each key, in
  the order the entries were made; this order stands for the order of iteration, which
  the container leaves open. The mutex and the condition variable have no
  counterpart: every operation below is one atomic step.
\<close>

record InMemoryPriorityQueue =
  high :: "Job list"
  low :: "Job list"
  inflight :: "(string \<times> Job) list"

record QueueSnapshot =
  snap_high :: "Job list"
  snap_low :: "Job list"
  snap_inflight :: "Job list"

record PeekInfo =
  job :: Job
  lane :: string
  position :: nat

definition empty_queue :: InMemoryPriorityQueue where
  "empty_queue = \<lparr>high = [], low = [], inflight = []\<rparr>"

section \<open>The queue operations of \<open>priority_queue.cpp\<close>\<close>

text \<open>\<open>unordered_map::emplace\<close>: no entry is made when the key is already there.\<close>

definition emplace :: "string \<Rightarrow> Job \<Rightarrow> (string \<times> Job) list \<Rightarrow> (string \<times> Job) list" where
  "emplace k v m = (if k \<in> fst ` set m then m else m @ [(k, v)])"

text \<open>\<open>unordered_map::erase(key)\<close>.\<close>

definition erase_key :: "string \<Rightarrow> (string \<times> Job) list \<Rightarrow> (string \<times> Job) list" where
  "erase_key k m = filter (\<lambda>kv. fst kv \<noteq> k) m"

definition enqueue :: "Job \<Rightarrow> InMemoryPriorityQueue \<Rightarrow> Job \<times> InMemoryPriorityQueue" where
  "enqueue j s =
     (j, if priority j = ''high'' then s\<lparr>high := high s @ [j]\<rparr>
         else s\<lparr>low := low s @ [j]\<rparr>)"

text \<open>
  The loop \<open>for (it = q.begin(); it != q.end(); ++it) if (it->agent == agent)
  { Job j = *it; q.erase(it); ... }\<close> that \<open>dequeue_for_agent\<close>, \<open>skip_next_for_agent\<close>
  and \<open>bring_forward_for_agent\<close> each run on a lane: the first job of the agent and
  the lane without it, or nothing.
\<close>

fun find_erase :: "string \<Rightarrow> Job list \<Rightarrow> (Job \<times> Job list) option" where
  "find_erase a [] = None"
| "find_erase a (j # q) =
     (if agent j = a then Some (j, q)
      else (case find_erase a q of
              None \<Rightarrow> None
            | Some (r, q') \<Rightarrow> Some (r, j # q')))"

text \<open>The lambda \<open>pop_from\<close>; it works on a lane and on the inflight table.\<close>

definition pop_from ::
  "string \<Rightarrow> Job list \<Rightarrow> (string \<times> Job) list \<Rightarrow> Job option \<times> Job list \<times> (string \<times> Job) list" where
  "pop_from a q m =
     (case find_erase a q of
        None \<Rightarrow> (None, q, m)
      | Some (j, q') \<Rightarrow> (Some j, q', emplace (job_id j) j m))"

definition dequeue_for_agent ::
  "string \<Rightarrow> InMemoryPriorityQueue \<Rightarrow> Job option \<times> InMemoryPriorityQueue" where
  "dequeue_for_agent a s =
     (case pop_from a (high s) (inflight s) of
        (Some j, h, m) \<Rightarrow> (Some j, s\<lparr>high := h, inflight := m\<rparr>)
      | (None, h, m) \<Rightarrow>
          (case pop_from a (low s) (inflight s) of
             (Some j, l, m') \<Rightarrow> (Some j, s\<lparr>low := l, inflight := m'\<rparr>)
           | (None, l, m') \<Rightarrow> (None, s)))"

definition complete ::
  "string \<Rightarrow> bool \<Rightarrow> string \<Rightarrow> InMemoryPriorityQueue \<Rightarrow> InMemoryPriorityQueue" where
  "complete i ok result_or_error s = s\<lparr>inflight := erase_key i (inflight s)\<rparr>"

definition snapshot :: "InMemoryPriorityQueue \<Rightarrow> QueueSnapshot" where
  "snapshot s =
     \<lparr>snap_high = high s, snap_low = low s, snap_inflight = map snd (inflight s)\<rparr>"

text \<open>The lambda \<open>remove_from\<close>: the number of jobs erased and the lane left.\<close>

definition remove_from :: "string \<Rightarrow> Job list \<Rightarrow> nat \<times> Job list" where
  "remove_from a q =
     (let q' = filter (\<lambda>j. agent j \<noteq> a) q in (length q - length q', q'))"

definition cancel_queued_for_agent ::
  "string \<Rightarrow> InMemoryPriorityQueue \<Rightarrow> nat \<times> InMemoryPriorityQueue" where
  "cancel_queued_for_agent a s =
     (case remove_from a (high s) of (n1, h) \<Rightarrow>
      case remove_from a (low s) of (n2, l) \<Rightarrow>
        (0 + n1 + n2, s\<lparr>high := h, low := l\<rparr>))"

text \<open>One of the two index loops of \<open>peek_for_agent\<close>, from index \<open>i\<close> on.\<close>

fun peek_lane :: "string \<Rightarrow> Job list \<Rightarrow> nat \<Rightarrow> (Job \<times> nat) option" where
  "peek_lane a [] i = None"
| "peek_lane a (j # q) i = (if agent j = a then Some (j, i) else peek_lane a q (Suc i))"

definition peek_for_agent :: "string \<Rightarrow> InMemoryPriorityQueue \<Rightarrow> PeekInfo option" where
  "peek_for_agent a s =
     (case peek_lane a (high s) 0 of
        Some (j, i) \<Rightarrow> Some \<lparr>job = j, lane = ''high'', position = i\<rparr>
      | None \<Rightarrow>
          (case peek_lane a (low s) 0 of
             Some (j, i) \<Rightarrow> Some \<lparr>job = j, lane = ''low'', position = i\<rparr>
           | None \<Rightarrow> None))"

definition skip_next_for_agent ::
  "string \<Rightarrow> InMemoryPriorityQueue \<Rightarrow> bool \<times> InMemoryPriorityQueue" where
  "skip_next_for_agent a s =
     (case find_erase a (high s) of
        Some (j, h) \<Rightarrow> (True, s\<lparr>high := h @ [j]\<rparr>)
      | None \<Rightarrow>
          (case find_erase a (low s) of
             Some (j, l) \<Rightarrow> (True, s\<lparr>low := l @ [j]\<rparr>)
           | None \<Rightarrow> (False, s)))"

definition bring_forward_for_agent ::
  "string \<Rightarrow> InMemoryPriorityQueue \<Rightarrow> bool \<times> InMemoryPriorityQueue" where
  "bring_forward_for_agent a s =
     (case find_erase a (high s) of
        Some (j, h) \<Rightarrow> (True, s\<lparr>high := j # h\<rparr>)
      | None \<Rightarrow>
          (case find_erase a (low s) of
             Some (j, l) \<Rightarrow> (True, s\<lparr>low := l, high := j # high s\<rparr>)
           | None \<Rightarrow> (False, s)))"

section \<open>Runs of queue operations\<close>

text \<open>
  One call of a public member function of the queue, with its arguments, and the state
  after a list of calls made one after the other.
\<close>

datatype op =
    Enqueue Job
  | Dequeue string
  | Complete string bool string
  | Cancel string
  | SkipNext string
  | BringForward string

fun step :: "op \<Rightarrow> InMemoryPriorityQueue \<Rightarrow> InMemoryPriorityQueue" where
  "step (Enqueue j) s = snd (enqueue j s)"
| "step (Dequeue a) s = snd (dequeue_for_agent a s)"
| "step (Complete i ok d) s = complete i ok d s"
| "step (Cancel a) s = snd (cancel_queued_for_agent a s)"
| "step (SkipNext a) s = snd (skip_next_for_agent a s)"
| "step (BringForward a) s = snd (bring_forward_for_agent a s)"

fun run :: "op list \<Rightarrow> InMemoryPriorityQueue \<Rightarrow> InMemoryPriorityQueue" where
  "run [] s = s"
| "run (x # xs) s = run xs (step x s)"

text \<open>The ids of the jobs in the three live places, and their uniqueness.\<close>

definition live_ids :: "InMemoryPriorityQueue \<Rightarrow> string list" where
  "live_ids s = map job_id (high s) @ map job_id (low s) @ map (\<lambda>kv. job_id (snd kv)) (inflight s)"

definition unique_ids :: "InMemoryPriorityQueue \<Rightarrow> bool" where
  "unique_ids s = distinct (live_ids s)"

text \<open>Each entry of the inflight table has the id of its job as key.\<close>

definition keyed :: "InMemoryPriorityQueue \<Rightarrow> bool" where
  "keyed s = (\<forall>kv \<in> set (inflight s). fst kv = job_id (snd kv))"

text \<open>A run in which each enqueue brings an id that is in none of the three places.\<close>

fun fresh_ids :: "op list \<Rightarrow> InMemoryPriorityQueue \<Rightarrow> bool" where
  "fresh_ids [] s = True"
| "fresh_ids (Enqueue j # xs) s = (job_id j \<notin> set (live_ids s) \<and> fresh_ids xs (step (Enqueue j) s))"
| "fresh_ids (x # xs) s = fresh_ids xs (step x s)"

text \<open>A run in which each complete names an id that is a key of the inflight table.\<close>

fun completes_inflight :: "op list \<Rightarrow> InMemoryPriorityQueue \<Rightarrow> bool" where
  "completes_inflight [] s = True"
| "completes_inflight (Complete i ok d # xs) s =
     (i \<in> fst ` set (inflight s) \<and> completes_inflight xs (step (Complete i ok d) s))"
| "completes_inflight (x # xs) s = completes_inflight xs (step x s)"

text \<open>
  The counts of the conservation equations: enqueue calls, dequeue calls that returned
  a job, the sum of the counts the cancel calls returned, complete calls.
\<close>

record tally =
  enqueued :: int
  dequeued :: int
  cancelled :: int
  completed :: int

definition no_calls :: tally where
  "no_calls = \<lparr>enqueued = 0, dequeued = 0, cancelled = 0, completed = 0\<rparr>"

fun tally_step :: "op \<Rightarrow> InMemoryPriorityQueue \<Rightarrow> tally \<Rightarrow> tally" where
  "tally_step (Enqueue j) s t = t\<lparr>enqueued := enqueued t + 1\<rparr>"
| "tally_step (Dequeue a) s t =
     (case fst (dequeue_for_agent a s) of
        None \<Rightarrow> t
      | Some j \<Rightarrow> t\<lparr>dequeued := dequeued t + 1\<rparr>)"
| "tally_step (Complete i ok d) s t = t\<lparr>completed := completed t + 1\<rparr>"
| "tally_step (Cancel a) s t = t\<lparr>cancelled := cancelled t + int (fst (cancel_queued_for_agent a s))\<rparr>"
| "tally_step (SkipNext a) s t = t"
| "tally_step (BringForward a) s t = t"

fun tally_of :: "op list \<Rightarrow> InMemoryPriorityQueue \<Rightarrow> tally \<Rightarrow> tally" where
  "tally_of [] s t = t"
| "tally_of (x # xs) s t = tally_of xs (step x s) (tally_step x s t)"

section \<open>The HTTP surface of \<open>main.cpp\<close>\<close>

subsection \<open>The JSON library\<close>

text \<open>
  The exceptions of \<open>nlohmann::json\<close> the handler can meet: of \<open>json::parse\<close> on a text
  that is no document, of a read at the wrong type, of \<open>at\<close> on a missing key.
\<close>

datatype exn = parse_error | type_error | out_of_range

definition bind_exn :: "exn + 'a \<Rightarrow> ('a \<Rightarrow> exn + 'b) \<Rightarrow> exn + 'b" where
  "bind_exn m f = (case m of Inl e \<Rightarrow> Inl e | Inr x \<Rightarrow> f x)"

text \<open>
  \<open>j.value(key, default)\<close> with a string default: the member when it is a string, the
  default when the object has no such member; it throws on a member of another type and
  on a document that is no object.
\<close>

definition value_string :: "json \<Rightarrow> string \<Rightarrow> string \<Rightarrow> exn + string" where
  "value_string j k d =
     (case j of
        JObj ms \<Rightarrow>
          (case map_of ms k of
             None \<Rightarrow> Inr d
           | Some (JStr x) \<Rightarrow> Inr x
           | Some v \<Rightarrow> Inl type_error)
      | v \<Rightarrow> Inl type_error)"

text \<open>\<open>j.value(key, default)\<close> with a document as default.\<close>

definition value_json :: "json \<Rightarrow> string \<Rightarrow> json \<Rightarrow> exn + json" where
  "value_json j k d =
     (case j of
        JObj ms \<Rightarrow> (case map_of ms k of None \<Rightarrow> Inr d | Some v \<Rightarrow> Inr v)
      | v \<Rightarrow> Inl type_error)"

text \<open>\<open>j.at(key).get<std::string>()\<close>.\<close>

definition at_string :: "json \<Rightarrow> string \<Rightarrow> exn + string" where
  "at_string j k =
     (case j of
        JObj ms \<Rightarrow>
          (case map_of ms k of
             None \<Rightarrow> Inl out_of_range
           | Some (JStr x) \<Rightarrow> Inr x
           | Some v \<Rightarrow> Inl type_error)
      | v \<Rightarrow> Inl type_error)"

subsection \<open>Requests, responses and the global state\<close>

text \<open>
  What one request brings to the handler once its body is complete: the fields
  \<open>method\<close> (here \<open>http_method\<close>) and \<open>url\<close> of \<open>ConnInfo\<close>, the GET arguments of the connection in the order
  \<open>MHD_get_connection_values\<close> reports them (a value may be missing), and the body as
  \<open>json::parse\<close> reads it: \<open>None\<close> when \<open>json::parse\<close> throws.
\<close>

record request =
  http_method :: string
  url :: string
  args :: "(string \<times> string option) list"
  body :: "json option"

text \<open>
  The body of a response: empty, a document (sent as \<open>dump()\<close> gives it), or the
  document \<open>{"error": e.what()}\<close> of the \<open>catch\<close> clause.
\<close>

datatype content = NoBody | Document json | What exn

record response =
  status :: nat
  content :: content
  ctype :: string

text \<open>
  The globals \<open>g_queue\<close> and \<open>g_paused_agents\<close>; the set lists each of its members once,
  in an order that stands for the order of iteration, which the container leaves open.
\<close>

record server =
  g_queue :: InMemoryPriorityQueue
  g_paused_agents :: "string list"

text \<open>
  The status codes the handler names, constants of the header of the HTTP library:
  the standard codes, which are also the ones the interface table lists.
\<close>

definition MHD_HTTP_OK :: nat where "MHD_HTTP_OK = 200"
definition MHD_HTTP_NO_CONTENT :: nat where "MHD_HTTP_NO_CONTENT = 204"
definition MHD_HTTP_BAD_REQUEST :: nat where "MHD_HTTP_BAD_REQUEST = 400"
definition MHD_HTTP_NOT_FOUND :: nat where "MHD_HTTP_NOT_FOUND = 404"

text \<open>\<open>unordered_set::insert\<close> and \<open>unordered_set::erase\<close>.\<close>

definition set_insert :: "string \<Rightarrow> string list \<Rightarrow> string list" where
  "set_insert a ps = (if a \<in> set ps then ps else ps @ [a])"

definition set_erase :: "string \<Rightarrow> string list \<Rightarrow> string list" where
  "set_erase a ps = filter (\<lambda>p. p \<noteq> a) ps"

text \<open>
  \<open>gen_id\<close>, from the two 64-bit draws of the generator: each printed by \<open>%016llx\<close>.
\<close>

definition hex_digit :: "nat \<Rightarrow> char" where
  "hex_digit n = ''0123456789abcdef'' ! n"

definition hex16 :: "64 word \<Rightarrow> string" where
  "hex16 w = map (\<lambda>i. hex_digit (unat (take_bit 4 (drop_bit (4 * i) w)))) (rev [0..<16])"

definition gen_id :: "64 word \<Rightarrow> 64 word \<Rightarrow> string" where
  "gen_id a b = hex16 a @ hex16 b"

definition send_response :: "nat \<Rightarrow> content \<Rightarrow> string \<Rightarrow> response" where
  "send_response st b ct = \<lparr>status = st, content = b, ctype = ct\<rparr>"

definition json_response :: "nat \<Rightarrow> json \<Rightarrow> response" where
  "json_response st j = send_response st (Document j) ''application/json''"

text \<open>\<open>parse_query\<close>: a later argument of the same name replaces an earlier one.\<close>

definition parse_query :: "(string \<times> string option) list \<Rightarrow> (string \<rightharpoonup> string)" where
  "parse_query kvs =
     fold (\<lambda>kv m. m(fst kv \<mapsto> (case snd kv of None \<Rightarrow> [] | Some v \<Rightarrow> v))) kvs Map.empty"

text \<open>
  The test \<open>it == q.end() || it->second.empty()\<close> every route with an agent makes:
  the agent of the query, or nothing when it is missing or empty.
\<close>

definition agent_param :: "request \<Rightarrow> string option" where
  "agent_param r =
     (case parse_query (args r) ''agent'' of
        None \<Rightarrow> None
      | Some v \<Rightarrow> if v = [] then None else Some v)"

definition agent_required :: response where
  "agent_required =
     json_response MHD_HTTP_BAD_REQUEST (JObj [(''error'', JStr ''agent query parameter required'')])"

text \<open>The document the routes \<open>/dequeue\<close>, \<open>/stats\<close> and \<open>/peek\<close> write for a job.\<close>

definition job_json :: "Job \<Rightarrow> json" where
  "job_json j =
     JObj [(''id'', JStr (job_id j)), (''agent'', JStr (agent j)), (''model'', JStr (model j)),
           (''priority'', JStr (priority j)), (''payload'', payload j)]"

subsection \<open>The routes\<close>

definition route_enqueue :: "64 word \<times> 64 word \<Rightarrow> request \<Rightarrow> server \<Rightarrow> exn + response \<times> server" where
  "route_enqueue rnd r s =
     bind_exn (case body r of None \<Rightarrow> Inl parse_error | Some j \<Rightarrow> Inr j) (\<lambda>j.
     bind_exn (value_string j ''id'' (gen_id (fst rnd) (snd rnd))) (\<lambda>i.
     bind_exn (at_string j ''agent'') (\<lambda>a.
     bind_exn (at_string j ''model'') (\<lambda>m.
     bind_exn (value_string j ''priority'' ''low'') (\<lambda>p.
     bind_exn (value_json j ''payload'' (JObj [])) (\<lambda>pl.
       let jb = \<lparr>job_id = i, agent = a, model = m, priority = p, payload = pl\<rparr> in
       Inr (json_response MHD_HTTP_OK (JObj [(''id'', JStr (job_id jb))]),
            s\<lparr>g_queue := snd (enqueue jb (g_queue s))\<rparr>)))))))"

definition route_dequeue :: "request \<Rightarrow> server \<Rightarrow> exn + response \<times> server" where
  "route_dequeue r s =
     (case agent_param r of
        None \<Rightarrow> Inr (agent_required, s)
      | Some a \<Rightarrow>
          if a \<in> set (g_paused_agents s)
          then Inr (send_response MHD_HTTP_NO_CONTENT NoBody ''text/plain'', s)
          else (case dequeue_for_agent a (g_queue s) of
                  (None, q) \<Rightarrow>
                    Inr (send_response MHD_HTTP_NO_CONTENT NoBody ''text/plain'', s\<lparr>g_queue := q\<rparr>)
                | (Some j, q) \<Rightarrow>
                    Inr (json_response MHD_HTTP_OK (job_json j), s\<lparr>g_queue := q\<rparr>)))"

text \<open>
  The lambda \<open>push_job\<close> of \<open>/stats\<close>: it appends the job to the array of its place and
  adds one to the counter of that place in the entry of the job's agent, which starts
  at three zeros. The counters are far from the bound of \<open>int\<close>.
\<close>

definition counters_zero :: json where
  "counters_zero = JObj [(''queued_high'', JNum 0), (''queued_low'', JNum 0), (''inflight'', JNum 0)]"

fun incr :: "string \<Rightarrow> json \<Rightarrow> json" where
  "incr k (JObj ms) =
     JObj (map (\<lambda>kv. if fst kv = k
                      then (fst kv, (case snd kv of JNum n \<Rightarrow> JNum (n + 1) | v \<Rightarrow> v))
                      else kv) ms)"
| "incr k v = v"

fun alist_put :: "string \<Rightarrow> json \<Rightarrow> (string \<times> json) list \<Rightarrow> (string \<times> json) list" where
  "alist_put k v [] = [(k, v)]"
| "alist_put k v (kv # ms) = (if fst kv = k then (k, v) # ms else kv # alist_put k v ms)"

definition push_job ::
  "string \<Rightarrow> Job \<Rightarrow> json list \<times> (string \<times> json) list \<Rightarrow> json list \<times> (string \<times> json) list" where
  "push_job ln j acc =
     (case acc of (arr, by_agent) \<Rightarrow>
        let m = (case map_of by_agent (agent j) of None \<Rightarrow> counters_zero | Some m \<Rightarrow> m);
            m' = (if ln = ''high'' then incr ''queued_high'' m
                  else if ln = ''low'' then incr ''queued_low'' m
                  else if ln = ''inflight'' then incr ''inflight'' m
                  else m)
        in (arr @ [job_json j], alist_put (agent j) m' by_agent))"

definition route_stats :: "server \<Rightarrow> exn + response \<times> server" where
  "route_stats s =
     (let sn = snapshot (g_queue s);
          (hi, by1) = fold (push_job ''high'') (snap_high sn) ([], []);
          (lo, by2) = fold (push_job ''low'') (snap_low sn) ([], by1);
          (fl, by3) = fold (push_job ''inflight'') (snap_inflight sn) ([], by2);
          metrics = JObj [(''queued_high'', JNum (int (length hi))),
                          (''queued_low'', JNum (int (length lo))),
                          (''inflight'', JNum (int (length fl))),
                          (''by_agent'', JObj by3)]
      in Inr (json_response MHD_HTTP_OK
                (JObj [(''queues'', JObj [(''high'', JArr hi), (''low'', JArr lo)]),
                       (''inflight'', JArr fl), (''metrics'', metrics)]), s))"

definition route_pause :: "request \<Rightarrow> server \<Rightarrow> exn + response \<times> server" where
  "route_pause r s =
     (case agent_param r of
        None \<Rightarrow> Inr (agent_required, s)
      | Some a \<Rightarrow>
          Inr (json_response MHD_HTTP_OK (JObj [(''ok'', JBool True)]),
               s\<lparr>g_paused_agents := set_insert a (g_paused_agents s)\<rparr>))"

definition route_resume :: "request \<Rightarrow> server \<Rightarrow> exn + response \<times> server" where
  "route_resume r s =
     (case agent_param r of
        None \<Rightarrow> Inr (agent_required, s)
      | Some a \<Rightarrow>
          Inr (json_response MHD_HTTP_OK (JObj [(''ok'', JBool True)]),
               s\<lparr>g_paused_agents := set_erase a (g_paused_agents s)\<rparr>))"

definition route_state :: "server \<Rightarrow> exn + response \<times> server" where
  "route_state s =
     Inr (json_response MHD_HTTP_OK (JObj [(''paused'', JArr (map JStr (g_paused_agents s)))]), s)"

definition route_jobs :: "request \<Rightarrow> server \<Rightarrow> exn + response \<times> server" where
  "route_jobs r s =
     (case agent_param r of
        None \<Rightarrow> Inr (agent_required, s)
      | Some a \<Rightarrow>
          (case cancel_queued_for_agent a (g_queue s) of (removed, q) \<Rightarrow>
             Inr (json_response MHD_HTTP_OK (JObj [(''removed'', JNum (int removed))]),
                  s\<lparr>g_queue := q\<rparr>)))"

definition route_complete :: "request \<Rightarrow> server \<Rightarrow> exn + response \<times> server" where
  "route_complete r s =
     (let i = drop (length ''/complete/'') (url r) in
      if i = [] then Inr (json_response MHD_HTTP_BAD_REQUEST (JObj [(''error'', JStr ''id required'')]), s)
      else
        bind_exn (case body r of None \<Rightarrow> Inl parse_error | Some j \<Rightarrow> Inr j) (\<lambda>j.
        bind_exn (value_string j ''status'' ''ok'') (\<lambda>st.
        bind_exn (value_string j ''error'' []) (\<lambda>err.
          Inr (json_response MHD_HTTP_OK (JObj [(''ok'', JBool True)]),
               s\<lparr>g_queue := complete i (st = ''ok'') err (g_queue s)\<rparr>)))))"

definition route_peek :: "request \<Rightarrow> server \<Rightarrow> exn + response \<times> server" where
  "route_peek r s =
     (case agent_param r of
        None \<Rightarrow> Inr (agent_required, s)
      | Some a \<Rightarrow>
          (case peek_for_agent a (g_queue s) of
             None \<Rightarrow> Inr (send_response MHD_HTTP_NO_CONTENT NoBody ''text/plain'', s)
           | Some p \<Rightarrow>
               Inr (json_response MHD_HTTP_OK
                      (JObj [(''job'', job_json (job p)), (''lane'', JStr (lane p)),
                             (''position'', JNum (int (position p)))]), s)))"

definition route_skip_next :: "request \<Rightarrow> server \<Rightarrow> exn + response \<times> server" where
  "route_skip_next r s =
     (case agent_param r of
        None \<Rightarrow> Inr (agent_required, s)
      | Some a \<Rightarrow>
          (case skip_next_for_agent a (g_queue s) of (moved, q) \<Rightarrow>
             Inr (json_response MHD_HTTP_OK (JObj [(''ok'', JBool moved)]), s\<lparr>g_queue := q\<rparr>)))"

definition route_bring_forward :: "request \<Rightarrow> server \<Rightarrow> exn + response \<times> server" where
  "route_bring_forward r s =
     (case agent_param r of
        None \<Rightarrow> Inr (agent_required, s)
      | Some a \<Rightarrow>
          (case bring_forward_for_agent a (g_queue s) of (moved, q) \<Rightarrow>
             Inr (json_response MHD_HTTP_OK (JObj [(''ok'', JBool moved)]), s\<lparr>g_queue := q\<rparr>)))"

definition route_stop :: "request \<Rightarrow> server \<Rightarrow> exn + response \<times> server" where
  "route_stop r s =
     (case agent_param r of
        None \<Rightarrow> Inr (agent_required, s)
      | Some a \<Rightarrow>
          (let ps = set_insert a (g_paused_agents s) in
           case cancel_queued_for_agent a (g_queue s) of (removed, q) \<Rightarrow>
             Inr (json_response MHD_HTTP_OK
                    (JObj [(''ok'', JBool True), (''paused'', JBool True),
                           (''removed'', JNum (int removed))]),
                  s\<lparr>g_paused_agents := ps, g_queue := q\<rparr>)))"

text \<open>The chain of tests inside the \<open>try\<close> block, in the order of the source.\<close>

definition dispatch :: "64 word \<times> 64 word \<Rightarrow> request \<Rightarrow> server \<Rightarrow> exn + response \<times> server" where
  "dispatch rnd r s =
     (if http_method r = ''POST'' \<and> url r = ''/enqueue'' then route_enqueue rnd r s
      else if http_method r = ''GET'' \<and> url r = ''/dequeue'' then route_dequeue r s
      else if http_method r = ''GET'' \<and> url r = ''/stats'' then route_stats s
      else if http_method r = ''POST'' \<and> url r = ''/control/pause'' then route_pause r s
      else if http_method r = ''POST'' \<and> url r = ''/control/resume'' then route_resume r s
      else if http_method r = ''GET'' \<and> url r = ''/control/state'' then route_state s
      else if http_method r = ''DELETE'' \<and> url r = ''/jobs'' then route_jobs r s
      else if http_method r = ''POST'' \<and> take (length ''/complete/'') (url r) = ''/complete/''
        then route_complete r s
      else if http_method r = ''GET'' \<and> url r = ''/peek'' then route_peek r s
      else if http_method r = ''POST'' \<and> url r = ''/control/skip_next'' then route_skip_next r s
      else if http_method r = ''POST'' \<and> url r = ''/control/bring_forward'' then route_bring_forward r s
      else if http_method r = ''POST'' \<and> url r = ''/control/stop'' then route_stop r s
      else Inr (json_response MHD_HTTP_NOT_FOUND (JObj [(''error'', JStr ''not found'')]), s))"

text \<open>
  The handler on the call that answers the request: the \<open>try\<close> block, and the \<open>catch\<close>
  clause, which answers 400 with the message of the exception. No route throws after
  it has changed the state.
\<close>

definition handler :: "64 word \<times> 64 word \<Rightarrow> request \<Rightarrow> server \<Rightarrow> response \<times> server" where
  "handler rnd r s =
     (case dispatch rnd r s of
        Inr out \<Rightarrow> out
      | Inl e \<Rightarrow> (send_response MHD_HTTP_BAD_REQUEST (What e) ''application/json'', s))"

text \<open>
  The daemon is started with one internal polling thread and no thread pool, so the
  calls of the handler follow one another: the state after a list of requests, each
  with the draws of its \<open>gen_id\<close>.
\<close>

fun serve :: "((64 word \<times> 64 word) \<times> request) list \<Rightarrow> server \<Rightarrow> server" where
  "serve [] s = s"
| "serve (x # xs) s = serve xs (snd (handler (fst x) (snd x) s))"

definition is_resume :: "string \<Rightarrow> request \<Rightarrow> bool" where
  "is_resume a r = (http_method r = ''POST'' \<and> url r = ''/control/resume'' \<and> agent_param r = Some a)"

section \<open>Sample jobs, queue states and requests\<close>

definition job_q1 :: Job where
  "job_q1 = \<lparr>job_id = ''j1'', agent = ''rag'', model = ''m'', priority = ''low'',
             payload = JObj [(''q'', JNum 1)]\<rparr>"

definition job_q2 :: Job where
  "job_q2 = \<lparr>job_id = ''j2'', agent = ''rag'', model = ''m'', priority = ''high'',
             payload = JObj [(''q'', JNum 2)]\<rparr>"

definition job_seo :: Job where
  "job_seo = \<lparr>job_id = ''j3'', agent = ''seo'', model = ''m'', priority = ''high'',
             payload = JObj []\<rparr>"

definition job_again :: Job where
  "job_again = \<lparr>job_id = ''j1'', agent = ''rag'', model = ''other'', priority = ''high'',
             payload = JNull\<rparr>"

definition overtake_queue :: InMemoryPriorityQueue where
  "overtake_queue = \<lparr>high = [job_seo, job_q2], low = [job_q1], inflight = []\<rparr>"

definition low_only_queue :: InMemoryPriorityQueue where
  "low_only_queue = \<lparr>high = [job_seo], low = [job_q1], inflight = []\<rparr>"

definition reused_id_queue :: InMemoryPriorityQueue where
  "reused_id_queue = \<lparr>high = [job_again], low = [], inflight = [(''j1'', job_q1)]\<rparr>"

definition job_b :: Job where
  "job_b = \<lparr>job_id = ''j4'', agent = ''B'', model = ''m'', priority = ''low'',
            payload = JObj [(''j'', JNum 1)]\<rparr>"

definition rotate_queue :: InMemoryPriorityQueue where
  "rotate_queue = \<lparr>high = [job_seo], low = [job_q1, job_b], inflight = [(''j2'', job_q2)]\<rparr>"

definition drain_run :: "op list" where
  "drain_run = [Enqueue job_q1, Enqueue job_q2, Enqueue job_seo, Dequeue ''rag'',
                Cancel ''rag'', Complete ''j2'' True []]"

definition double_complete_run :: "op list" where
  "double_complete_run = [Enqueue job_q1, Dequeue ''rag'', Complete ''j1'' True [],
                          Complete ''j1'' False ''again'']"

definition idle_server :: server where
  "idle_server = \<lparr>g_queue = empty_queue, g_paused_agents = []\<rparr>"

definition busy_server :: server where
  "busy_server = \<lparr>g_queue = rotate_queue, g_paused_agents = [''seo'']\<rparr>"

definition complete_no_id :: request where
  "complete_no_id = \<lparr>http_method = ''POST'', url = ''/complete/'', args = [], body = None\<rparr>"

definition complete_j2 :: request where
  "complete_j2 = \<lparr>http_method = ''POST'', url = ''/complete/j2'', args = [],
                   body = Some (JObj [(''status'', JStr ''error''), (''error'', JStr ''boom'')])\<rparr>"

definition complete_unknown :: request where
  "complete_unknown = \<lparr>http_method = ''POST'', url = ''/complete/zz'', args = [],
                        body = Some (JObj [(''status'', JStr ''ok'')])\<rparr>"

definition stop_rag :: request where
  "stop_rag = \<lparr>http_method = ''POST'', url = ''/control/stop'', args = [(''agent'', Some ''rag'')],
                body = None\<rparr>"

definition three_for_rag :: server where
  "three_for_rag =
     \<lparr>g_queue = \<lparr>high = [job_q2, job_seo], low = [job_q1, job_b, job_again],
                  inflight = [(''j9'', job_q2)]\<rparr>,
      g_paused_agents = [''seo'']\<rparr>"

definition enqueue_request :: "(string \<times> json) list \<Rightarrow> request" where
  "enqueue_request ms = \<lparr>http_method = ''POST'', url = ''/enqueue'', args = [], body = Some (JObj ms)\<rparr>"

definition urgent_body :: "(string \<times> json) list" where
  "urgent_body = [(''id'', JStr ''u1''), (''agent'', JStr ''rag''), (''model'', JStr ''m''),
                  (''priority'', JStr ''urgent'')]"

definition numeric_body :: "(string \<times> json) list" where
  "numeric_body = [(''id'', JStr ''u2''), (''agent'', JStr ''rag''), (''model'', JStr ''m''),
                   (''priority'', JNum 5)]"

definition plain_body :: "(string \<times> json) list" where
  "plain_body = [(''id'', JStr ''u3''), (''agent'', JStr ''rag''), (''model'', JStr ''m''),
                 (''payload'', JObj [(''q'', JNum 1)])]"

definition high_body :: "(string \<times> json) list" where
  "high_body = [(''id'', JStr ''u4''), (''agent'', JStr ''rag''), (''model'', JStr ''m''),
                (''priority'', JStr ''high'')]"

text \<open>
  Two views of what a route gives: whether an agent is in the pause set afterwards,
  and the answer together with the queue afterwards.
\<close>

definition keeps_paused :: "string \<Rightarrow> exn + response \<times> server \<Rightarrow> bool" where
  "keeps_paused a x = (case x of Inl e \<Rightarrow> True | Inr out \<Rightarrow> a \<in> set (g_paused_agents (snd out)))"

definition outcome :: "exn + response \<times> server \<Rightarrow> exn + response \<times> InMemoryPriorityQueue" where
  "outcome x = (case x of Inl e \<Rightarrow> Inl e | Inr out \<Rightarrow> Inr (fst out, g_queue (snd out)))"

definition agent_request :: "string \<Rightarrow> string \<Rightarrow> string \<Rightarrow> request" where
  "agent_request m u a = \<lparr>http_method = m, url = u, args = [(''agent'', Some a)], body = None\<rparr>"

definition during_pause :: "((64 word \<times> 64 word) \<times> request) list" where
  "during_pause =
     [((0, 0), enqueue_request high_body),
      ((0, 0), agent_request ''POST'' ''/control/resume'' ''seo''),
      ((0, 0), agent_request ''POST'' ''/control/pause'' ''rag'')]"

text \<open>
  Requests that bring one id twice: the second while the first job is inflight, and
  the second while the first job is still queued.
\<close>

definition q1_body :: "(string \<times> json) list" where
  "q1_body = [(''id'', JStr ''j1''), (''agent'', JStr ''rag''), (''model'', JStr ''m''),
              (''priority'', JStr ''low''), (''payload'', JObj [(''q'', JNum 1)])]"

definition again_body :: "(string \<times> json) list" where
  "again_body = [(''id'', JStr ''j1''), (''agent'', JStr ''rag''), (''model'', JStr ''other''),
                 (''priority'', JStr ''high''), (''payload'', JNull)]"

definition reuse_inflight_id :: "((64 word \<times> 64 word) \<times> request) list" where
  "reuse_inflight_id =
     [((0, 0), enqueue_request q1_body),
      ((0, 0), agent_request ''GET'' ''/dequeue'' ''rag''),
      ((0, 0), enqueue_request again_body)]"

definition same_id_twice :: "((64 word \<times> 64 word) \<times> request) list" where
  "same_id_twice = [((0, 0), enqueue_request q1_body), ((1, 1), enqueue_request q1_body)]"

section \<open>The scan of a lane\<close>

lemma find_erase_None: "find_erase a q = None \<longleftrightarrow> (\<forall>j \<in> set q. agent j \<noteq> a)"
  by (induction q) (auto split: option.splits)

lemma find_erase_at:
  "i < length q \<Longrightarrow> agent (q ! i) = a \<Longrightarrow> (\<forall>k<i. agent (q ! k) \<noteq> a) \<Longrightarrow>
   find_erase a q = Some (q ! i, take i q @ drop (Suc i) q)"
proof (induction q arbitrary: i)
  case Nil
  then show ?case by simp
next
  case (Cons j q)
  show ?case
  proof (cases i)
    case 0
    with Cons.prems show ?thesis by simp
  next
    case (Suc n)
    from Cons.prems Suc have hd: "agent j \<noteq> a" by auto
    from Cons.prems Suc have "n < length q" "agent (q ! n) = a" by auto
    moreover from Cons.prems Suc have "\<forall>k<n. agent (q ! k) \<noteq> a" by auto
    ultimately have "find_erase a q = Some (q ! n, take n q @ drop (Suc n) q)"
      by (rule Cons.IH)
    with hd Suc show ?thesis by simp
  qed
qed

lemma find_erase_Some:
  "find_erase a q = Some (j, q') \<Longrightarrow>
   \<exists>xs ys. q = xs @ j # ys \<and> q' = xs @ ys \<and> agent j = a \<and> (\<forall>x \<in> set xs. agent x \<noteq> a)"
proof (induction q arbitrary: q')
  case Nil
  then show ?case by simp
next
  case (Cons x q)
  show ?case
  proof (cases "agent x = a")
    case True
    with Cons.prems have "j = x" "q' = q" by auto
    with True have "x # q = [] @ j # q \<and> q' = [] @ q \<and> agent j = a \<and> (\<forall>x \<in> set []. agent x \<noteq> a)"
      by simp
    then show ?thesis by blast
  next
    case False
    with Cons.prems obtain r where r: "find_erase a q = Some (j, r)" "q' = x # r"
      by (auto split: option.splits)
    from Cons.IH [OF r(1)] obtain xs ys where
      "q = xs @ j # ys" "r = xs @ ys" "agent j = a" "\<forall>x \<in> set xs. agent x \<noteq> a"
      by blast
    with False r(2) have
      "x # q = (x # xs) @ j # ys \<and> q' = (x # xs) @ ys \<and> agent j = a \<and>
       (\<forall>y \<in> set (x # xs). agent y \<noteq> a)"
      by simp
    then show ?thesis by blast
  qed
qed

section \<open>\<open>dequeue_for_agent\<close>\<close>

lemma pop_from_at:
  "i < length q \<Longrightarrow> agent (q ! i) = a \<Longrightarrow> (\<forall>k<i. agent (q ! k) \<noteq> a) \<Longrightarrow>
   pop_from a q m = (Some (q ! i), take i q @ drop (Suc i) q, emplace (job_id (q ! i)) (q ! i) m)"
  by (simp add: pop_from_def find_erase_at)

lemma pop_from_none: "(\<forall>j \<in> set q. agent j \<noteq> a) \<Longrightarrow> pop_from a q m = (None, q, m)"
  by (simp add: pop_from_def find_erase_None [THEN iffD2])

text \<open>
  What \<open>dequeue_for_agent\<close> computes in every state. \<open>dequeue_for_agent a\<close> returns the job at the lowest
  index of the high lane whose agent is \<open>a\<close> and takes it out of that lane; when the
  high lane has no job of \<open>a\<close> it does so on the low lane, whatever the order of the
  enqueues was; when neither lane has one it returns nothing and the state is the one
  before. The returned job is entered in the inflight table under its id unless the
  table has an entry with that id already; then the table stays as it is.
\<close>

theorem dequeue_for_agent_scan:
  "(\<forall>i. i < length (high s) \<and> agent (high s ! i) = a \<and> (\<forall>k<i. agent (high s ! k) \<noteq> a) \<longrightarrow>
      dequeue_for_agent a s =
        (Some (high s ! i),
         s\<lparr>high := take i (high s) @ drop (Suc i) (high s),
           inflight := (if job_id (high s ! i) \<in> fst ` set (inflight s) then inflight s
                        else inflight s @ [(job_id (high s ! i), high s ! i)])\<rparr>))
   \<and> ((\<forall>j \<in> set (high s). agent j \<noteq> a) \<longrightarrow>
      (\<forall>i. i < length (low s) \<and> agent (low s ! i) = a \<and> (\<forall>k<i. agent (low s ! k) \<noteq> a) \<longrightarrow>
         dequeue_for_agent a s =
           (Some (low s ! i),
            s\<lparr>low := take i (low s) @ drop (Suc i) (low s),
              inflight := (if job_id (low s ! i) \<in> fst ` set (inflight s) then inflight s
                           else inflight s @ [(job_id (low s ! i), low s ! i)])\<rparr>)))
   \<and> ((\<forall>j \<in> set (high s). agent j \<noteq> a) \<and> (\<forall>j \<in> set (low s). agent j \<noteq> a) \<longrightarrow>
      dequeue_for_agent a s = (None, s))"
proof (intro conjI allI impI)
  fix i
  assume "i < length (high s) \<and> agent (high s ! i) = a \<and> (\<forall>k<i. agent (high s ! k) \<noteq> a)"
  then have "pop_from a (high s) (inflight s) =
      (Some (high s ! i), take i (high s) @ drop (Suc i) (high s),
       emplace (job_id (high s ! i)) (high s ! i) (inflight s))"
    by (intro pop_from_at) simp_all
  then show "dequeue_for_agent a s =
        (Some (high s ! i),
         s\<lparr>high := take i (high s) @ drop (Suc i) (high s),
           inflight := (if job_id (high s ! i) \<in> fst ` set (inflight s) then inflight s
                        else inflight s @ [(job_id (high s ! i), high s ! i)])\<rparr>)"
    by (simp add: dequeue_for_agent_def emplace_def)
next
  fix i
  assume "\<forall>j \<in> set (high s). agent j \<noteq> a"
    and "i < length (low s) \<and> agent (low s ! i) = a \<and> (\<forall>k<i. agent (low s ! k) \<noteq> a)"
  then have "pop_from a (high s) (inflight s) = (None, high s, inflight s)"
    and "pop_from a (low s) (inflight s) =
      (Some (low s ! i), take i (low s) @ drop (Suc i) (low s),
       emplace (job_id (low s ! i)) (low s ! i) (inflight s))"
    by (simp add: pop_from_none, intro pop_from_at, simp_all)
  then show "dequeue_for_agent a s =
           (Some (low s ! i),
            s\<lparr>low := take i (low s) @ drop (Suc i) (low s),
              inflight := (if job_id (low s ! i) \<in> fst ` set (inflight s) then inflight s
                           else inflight s @ [(job_id (low s ! i), low s ! i)])\<rparr>)"
    by (simp add: dequeue_for_agent_def emplace_def)
next
  assume "(\<forall>j \<in> set (high s). agent j \<noteq> a) \<and> (\<forall>j \<in> set (low s). agent j \<noteq> a)"
  then show "dequeue_for_agent a s = (None, s)"
    by (simp add: dequeue_for_agent_def pop_from_none)
qed

text \<open>
  The three cases on the queues of scenario S1: a high job of the agent behind a job of
  another agent, a job of the agent in the low lane only, and no job of the agent.
\<close>

theorem dequeue_for_agent_scan_witness:
  "dequeue_for_agent ''rag'' overtake_queue =
     (Some job_q2, \<lparr>high = [job_seo], low = [job_q1], inflight = [(''j2'', job_q2)]\<rparr>)
   \<and> dequeue_for_agent ''rag'' low_only_queue =
     (Some job_q1, \<lparr>high = [job_seo], low = [], inflight = [(''j1'', job_q1)]\<rparr>)
   \<and> dequeue_for_agent ''seo'' reused_id_queue = (None, reused_id_queue)"
proof -
  have "1 < length (high overtake_queue) \<and> agent (high overtake_queue ! 1) = ''rag'' \<and>
        (\<forall>k<1. agent (high overtake_queue ! k) \<noteq> ''rag'')"
    by (simp add: overtake_queue_def job_seo_def job_q2_def)
  with dequeue_for_agent_scan [of overtake_queue "''rag''"]
  have "dequeue_for_agent ''rag'' overtake_queue =
        (Some (high overtake_queue ! 1),
         overtake_queue\<lparr>high := take 1 (high overtake_queue) @ drop (Suc 1) (high overtake_queue),
           inflight := (if job_id (high overtake_queue ! 1) \<in> fst ` set (inflight overtake_queue)
                        then inflight overtake_queue
                        else inflight overtake_queue @
                             [(job_id (high overtake_queue ! 1), high overtake_queue ! 1)])\<rparr>)"
    by blast
  then have one: "dequeue_for_agent ''rag'' overtake_queue =
     (Some job_q2, \<lparr>high = [job_seo], low = [job_q1], inflight = [(''j2'', job_q2)]\<rparr>)"
    by (simp add: overtake_queue_def job_q2_def)
  have "(\<forall>j \<in> set (high low_only_queue). agent j \<noteq> ''rag'')"
    and "0 < length (low low_only_queue) \<and> agent (low low_only_queue ! 0) = ''rag'' \<and>
        (\<forall>k<0. agent (low low_only_queue ! k) \<noteq> ''rag'')"
    by (simp_all add: low_only_queue_def job_seo_def job_q1_def)
  with dequeue_for_agent_scan [of low_only_queue "''rag''"]
  have "dequeue_for_agent ''rag'' low_only_queue =
           (Some (low low_only_queue ! 0),
            low_only_queue\<lparr>low := take 0 (low low_only_queue) @ drop (Suc 0) (low low_only_queue),
              inflight := (if job_id (low low_only_queue ! 0) \<in> fst ` set (inflight low_only_queue)
                           then inflight low_only_queue
                           else inflight low_only_queue @
                                [(job_id (low low_only_queue ! 0), low low_only_queue ! 0)])\<rparr>)"
    by blast
  then have two: "dequeue_for_agent ''rag'' low_only_queue =
     (Some job_q1, \<lparr>high = [job_seo], low = [], inflight = [(''j1'', job_q1)]\<rparr>)"
    by (simp add: low_only_queue_def job_q1_def)
  have "(\<forall>j \<in> set (high reused_id_queue). agent j \<noteq> ''seo'') \<and>
        (\<forall>j \<in> set (low reused_id_queue). agent j \<noteq> ''seo'')"
    by (simp add: reused_id_queue_def job_again_def)
  with dequeue_for_agent_scan [of reused_id_queue "''seo''"]
  have three: "dequeue_for_agent ''seo'' reused_id_queue = (None, reused_id_queue)"
    by blast
  from one two three show ?thesis by blast
qed

text \<open>The definitions that evaluate a request on a server.\<close>

lemmas http_eval = handler_def dispatch_def route_enqueue_def route_dequeue_def bind_exn_def
  value_string_def at_string_def value_json_def enqueue_request_def agent_request_def
  agent_param_def parse_query_def enqueue_def dequeue_for_agent_def pop_from_def emplace_def
  json_response_def send_response_def idle_server_def empty_queue_def

text \<open>
  Claim C1: a dequeue returns the first job of the agent, high lane before low lane,
  removes it from its lane and enters it in the inflight table. The scan and the
  removal are as claimed in every state (\<open>dequeue_for_agent_scan\<close>); the entry is missed
  when the id of the job is inflight already. \<open>job.hpp\<close> calls the id unique, yet
  \<open>/enqueue\<close> takes an id whatever it is: an idle server that is sent a job, a dequeue
  and a second job with the id of the first holds the second job in the high lane and
  the first in the inflight table. The dequeue then returns the second job, \<open>emplace\<close>
  makes no entry, the table keeps the first job alone, and the complete for the id
  retires the first job: the job that was handed out is in no place.
\<close>

theorem dequeue_for_agent_reused_id:
  "serve reuse_inflight_id idle_server = \<lparr>g_queue = reused_id_queue, g_paused_agents = []\<rparr>
   \<and> fst (dequeue_for_agent ''rag'' reused_id_queue) = Some job_again
   \<and> inflight (snd (dequeue_for_agent ''rag'' reused_id_queue)) = [(''j1'', job_q1)]
   \<and> (job_id job_again, job_again) \<notin> set (inflight (snd (dequeue_for_agent ''rag'' reused_id_queue)))
   \<and> inflight (complete ''j1'' True [] (snd (dequeue_for_agent ''rag'' reused_id_queue))) = []"
  by (simp add: reuse_inflight_id_def q1_body_def again_body_def http_eval reused_id_queue_def
      job_q1_def job_again_def complete_def erase_key_def)

section \<open>\<open>bring_forward_for_agent\<close> and \<open>peek_for_agent\<close>\<close>

lemma first_index_ex:
  "\<exists>j \<in> set (q::Job list). agent j = a \<Longrightarrow> \<exists>i<length q. agent (q ! i) = a \<and> (\<forall>k<i. agent (q ! k) \<noteq> a)"
proof -
  assume "\<exists>j \<in> set q. agent j = a"
  then have "find_erase a q \<noteq> None" by (simp add: find_erase_None)
  then obtain j q' where "find_erase a q = Some (j, q')" by auto
  from find_erase_Some [OF this] obtain xs ys where
    q: "q = xs @ j # ys" and j: "agent j = a" and xs: "\<forall>x \<in> set xs. agent x \<noteq> a"
    by blast
  have "length xs < length q" using q by simp
  moreover have "agent (q ! length xs) = a" using q j by simp
  moreover have "\<forall>k<length xs. agent (q ! k) \<noteq> a" using q xs by (simp add: nth_append)
  ultimately show ?thesis by blast
qed

lemma find_erase_filter:
  "map_option fst (find_erase a q) =
     (case filter (\<lambda>j. agent j = a) q of [] \<Rightarrow> None | x # xs \<Rightarrow> Some x)"
  by (induction q) (auto split: option.splits list.splits)

lemma dequeue_for_agent_fst:
  "fst (dequeue_for_agent a s) =
     (case filter (\<lambda>j. agent j = a) (high s) of
        x # xs \<Rightarrow> Some x
      | [] \<Rightarrow> (case filter (\<lambda>j. agent j = a) (low s) of [] \<Rightarrow> None | x # xs \<Rightarrow> Some x))"
proof -
  have "fst (dequeue_for_agent a s) =
      (case map_option fst (find_erase a (high s)) of
         Some j \<Rightarrow> Some j
       | None \<Rightarrow> map_option fst (find_erase a (low s)))"
    by (simp add: dequeue_for_agent_def pop_from_def split: option.splits)
  then show ?thesis
    by (simp add: find_erase_filter split: list.splits)
qed

lemma peek_lane_None: "peek_lane a q n = None \<longleftrightarrow> (\<forall>j \<in> set q. agent j \<noteq> a)"
  by (induction q arbitrary: n) auto

lemma peek_lane_at:
  "i < length q \<Longrightarrow> agent (q ! i) = a \<Longrightarrow> (\<forall>k<i. agent (q ! k) \<noteq> a) \<Longrightarrow>
   peek_lane a q n = Some (q ! i, n + i)"
proof (induction q arbitrary: i n)
  case Nil
  then show ?case by simp
next
  case (Cons j q)
  show ?case
  proof (cases i)
    case 0
    with Cons.prems show ?thesis by simp
  next
    case (Suc m)
    from Cons.prems Suc have hd: "agent j \<noteq> a" by auto
    from Cons.prems Suc have "m < length q" "agent (q ! m) = a" by auto
    moreover from Cons.prems Suc have "\<forall>k<m. agent (q ! k) \<noteq> a" by auto
    ultimately have "peek_lane a q (Suc n) = Some (q ! m, Suc n + m)"
      by (rule Cons.IH)
    with hd Suc show ?thesis by simp
  qed
qed

lemma peek_for_agent_job:
  "map_option job (peek_for_agent a s) =
     (case filter (\<lambda>j. agent j = a) (high s) of
        x # xs \<Rightarrow> Some x
      | [] \<Rightarrow> (case filter (\<lambda>j. agent j = a) (low s) of [] \<Rightarrow> None | x # xs \<Rightarrow> Some x))"
proof -
  have lane: "map_option fst (peek_lane a q n) =
     (case filter (\<lambda>j. agent j = a) q of [] \<Rightarrow> None | x # xs \<Rightarrow> Some x)" for q n
    by (induction q arbitrary: n) auto
  have "map_option job (peek_for_agent a s) =
      (case map_option fst (peek_lane a (high s) 0) of
         Some j \<Rightarrow> Some j
       | None \<Rightarrow> map_option fst (peek_lane a (low s) 0))"
    by (simp add: peek_for_agent_def split: option.splits)
  then show ?thesis
    by (simp add: lane split: list.splits)
qed

lemma bring_forward_high:
  assumes "i < length (high s)" "agent (high s ! i) = a" "\<forall>k<i. agent (high s ! k) \<noteq> a"
  shows "bring_forward_for_agent a s =
           (True, s\<lparr>high := high s ! i # take i (high s) @ drop (Suc i) (high s)\<rparr>)"
    and "peek_for_agent a s = Some \<lparr>job = high s ! i, lane = ''high'', position = i\<rparr>"
  using find_erase_at [OF assms] peek_lane_at [OF assms, of 0]
  by (simp_all add: bring_forward_for_agent_def peek_for_agent_def)

lemma bring_forward_low:
  assumes "\<forall>j \<in> set (high s). agent j \<noteq> a"
    and "i < length (low s)" "agent (low s ! i) = a" "\<forall>k<i. agent (low s ! k) \<noteq> a"
  shows "bring_forward_for_agent a s =
           (True, s\<lparr>low := take i (low s) @ drop (Suc i) (low s), high := low s ! i # high s\<rparr>)"
    and "peek_for_agent a s = Some \<lparr>job = low s ! i, lane = ''low'', position = i\<rparr>"
  using find_erase_at [OF assms(2-4)] peek_lane_at [OF assms(2-4), of 0]
    find_erase_None [THEN iffD2, OF assms(1)] peek_lane_None [THEN iffD2, OF assms(1), of 0]
  by (simp_all add: bring_forward_for_agent_def peek_for_agent_def)

lemma bring_forward_none:
  assumes "\<forall>j \<in> set (high s). agent j \<noteq> a" "\<forall>j \<in> set (low s). agent j \<noteq> a"
  shows "bring_forward_for_agent a s = (False, s)"
  using find_erase_None [THEN iffD2, OF assms(1)] find_erase_None [THEN iffD2, OF assms(2)]
  by (simp add: bring_forward_for_agent_def)

lemma bring_forward_then_dequeue:
  "fst (dequeue_for_agent a (snd (bring_forward_for_agent a s))) =
   map_option job (peek_for_agent a s)"
proof (cases "find_erase a (high s)")
  case (Some p)
  then obtain j h where p: "find_erase a (high s) = Some (j, h)" by (cases p) auto
  from find_erase_Some [OF p] obtain xs ys where
    "high s = xs @ j # ys" "agent j = a" "\<forall>x \<in> set xs. agent x \<noteq> a" by blast
  then have "filter (\<lambda>j. agent j = a) (high s) = j # filter (\<lambda>j. agent j = a) ys"
    by simp
  moreover from find_erase_Some [OF p] have "agent j = a" by blast
  ultimately show ?thesis using p
    by (simp add: dequeue_for_agent_fst peek_for_agent_job bring_forward_for_agent_def)
next
  case None
  then have nohigh: "filter (\<lambda>j. agent j = a) (high s) = []"
    by (simp add: find_erase_None filter_empty_conv)
  show ?thesis
  proof (cases "find_erase a (low s)")
    case None' : None
    then have "filter (\<lambda>j. agent j = a) (low s) = []"
      by (simp add: find_erase_None filter_empty_conv)
    with None None' nohigh show ?thesis
      by (simp add: dequeue_for_agent_fst peek_for_agent_job bring_forward_for_agent_def)
  next
    case (Some p)
    then obtain j l where p: "find_erase a (low s) = Some (j, l)" by (cases p) auto
    from find_erase_Some [OF p] obtain xs ys where
      "low s = xs @ j # ys" "agent j = a" "\<forall>x \<in> set xs. agent x \<noteq> a" by blast
    then have "filter (\<lambda>j. agent j = a) (low s) = j # filter (\<lambda>j. agent j = a) ys"
      and "agent j = a"
      by simp_all
    with None p nohigh show ?thesis
      by (simp add: dequeue_for_agent_fst peek_for_agent_job bring_forward_for_agent_def)
  qed
qed

text \<open>
  Claim C5. When a job of agent \<open>a\<close> is queued, \<open>bring_forward_for_agent a\<close> takes the
  job \<open>peek_for_agent a\<close> shows (the one at the lowest index of the high lane, or of the
  low lane when the high lane has none) out of its lane, puts that very job, all its
  fields as they were, at the front of the high lane and returns true; a
  \<open>dequeue_for_agent a\<close> right after returns the job \<open>peek_for_agent a\<close> showed before.
  With no queued job of \<open>a\<close> it returns false and the state is the one before.
\<close>

theorem bring_forward_for_agent_promotes:
  "(\<forall>i. i < length (high s) \<and> agent (high s ! i) = a \<and> (\<forall>k<i. agent (high s ! k) \<noteq> a) \<longrightarrow>
      bring_forward_for_agent a s =
        (True, s\<lparr>high := high s ! i # take i (high s) @ drop (Suc i) (high s)\<rparr>)
      \<and> peek_for_agent a s = Some \<lparr>job = high s ! i, lane = ''high'', position = i\<rparr>)
   \<and> ((\<forall>j \<in> set (high s). agent j \<noteq> a) \<longrightarrow>
      (\<forall>i. i < length (low s) \<and> agent (low s ! i) = a \<and> (\<forall>k<i. agent (low s ! k) \<noteq> a) \<longrightarrow>
         bring_forward_for_agent a s =
           (True, s\<lparr>low := take i (low s) @ drop (Suc i) (low s), high := low s ! i # high s\<rparr>)
         \<and> peek_for_agent a s = Some \<lparr>job = low s ! i, lane = ''low'', position = i\<rparr>))
   \<and> ((\<exists>j \<in> set (high s @ low s). agent j = a) \<longrightarrow>
      fst (bring_forward_for_agent a s)
      \<and> peek_for_agent a s \<noteq> None
      \<and> fst (dequeue_for_agent a (snd (bring_forward_for_agent a s))) =
          map_option job (peek_for_agent a s))
   \<and> ((\<forall>j \<in> set (high s @ low s). agent j \<noteq> a) \<longrightarrow> bring_forward_for_agent a s = (False, s))"
proof (intro conjI allI impI)
  fix i
  assume h: "i < length (high s) \<and> agent (high s ! i) = a \<and> (\<forall>k<i. agent (high s ! k) \<noteq> a)"
  then show "bring_forward_for_agent a s =
        (True, s\<lparr>high := high s ! i # take i (high s) @ drop (Suc i) (high s)\<rparr>)"
    by (intro bring_forward_high(1)) simp_all
  from h show "peek_for_agent a s = Some \<lparr>job = high s ! i, lane = ''high'', position = i\<rparr>"
    by (intro bring_forward_high(2)) simp_all
next
  fix i
  assume n: "\<forall>j \<in> set (high s). agent j \<noteq> a"
    and l: "i < length (low s) \<and> agent (low s ! i) = a \<and> (\<forall>k<i. agent (low s ! k) \<noteq> a)"
  then show "bring_forward_for_agent a s =
           (True, s\<lparr>low := take i (low s) @ drop (Suc i) (low s), high := low s ! i # high s\<rparr>)"
    by (intro bring_forward_low(1)) simp_all
  from n l show "peek_for_agent a s = Some \<lparr>job = low s ! i, lane = ''low'', position = i\<rparr>"
    by (intro bring_forward_low(2)) simp_all
next
  assume ex: "\<exists>j \<in> set (high s @ low s). agent j = a"
  have both: "fst (bring_forward_for_agent a s) \<and> peek_for_agent a s \<noteq> None"
  proof (cases "\<exists>j \<in> set (high s). agent j = a")
    case True
    from first_index_ex [OF True] obtain i where
      "i < length (high s)" "agent (high s ! i) = a" "\<forall>k<i. agent (high s ! k) \<noteq> a" by blast
    from bring_forward_high [OF this] show ?thesis by simp
  next
    case False
    then have n: "\<forall>j \<in> set (high s). agent j \<noteq> a" by blast
    with ex have "\<exists>j \<in> set (low s). agent j = a" by auto
    from first_index_ex [OF this] obtain i where
      "i < length (low s)" "agent (low s ! i) = a" "\<forall>k<i. agent (low s ! k) \<noteq> a" by blast
    from bring_forward_low [OF n this] show ?thesis by simp
  qed
  then show "fst (bring_forward_for_agent a s)" by simp
  from both show "peek_for_agent a s \<noteq> None" by simp
  show "fst (dequeue_for_agent a (snd (bring_forward_for_agent a s))) =
          map_option job (peek_for_agent a s)"
    by (rule bring_forward_then_dequeue)
next
  assume "\<forall>j \<in> set (high s @ low s). agent j \<noteq> a"
  then show "bring_forward_for_agent a s = (False, s)"
    by (intro bring_forward_none) auto
qed

text \<open>
  The cases of \<open>bring_forward_for_agent\<close> on sample queues: the job of the agent is
  second in the high lane; it is in the low lane only and moves to the front of the
  high lane with its priority field \<open>low\<close>; the agent has no queued job.
\<close>

theorem bring_forward_for_agent_promotes_witness:
  "bring_forward_for_agent ''rag'' overtake_queue =
     (True, \<lparr>high = [job_q2, job_seo], low = [job_q1], inflight = []\<rparr>)
   \<and> peek_for_agent ''rag'' overtake_queue = Some \<lparr>job = job_q2, lane = ''high'', position = 1\<rparr>
   \<and> bring_forward_for_agent ''rag'' low_only_queue =
     (True, \<lparr>high = [job_q1, job_seo], low = [], inflight = []\<rparr>)
   \<and> peek_for_agent ''rag'' low_only_queue = Some \<lparr>job = job_q1, lane = ''low'', position = 0\<rparr>
   \<and> priority job_q1 = ''low''
   \<and> fst (dequeue_for_agent ''rag'' (snd (bring_forward_for_agent ''rag'' low_only_queue))) =
       Some job_q1
   \<and> bring_forward_for_agent ''seo'' reused_id_queue = (False, reused_id_queue)"
proof -
  note T = bring_forward_for_agent_promotes
  have h1: "1 < length (high overtake_queue) \<and> agent (high overtake_queue ! 1) = ''rag'' \<and>
        (\<forall>k<1. agent (high overtake_queue ! k) \<noteq> ''rag'')"
    by (simp add: overtake_queue_def job_seo_def job_q2_def)
  have h2: "\<forall>j \<in> set (high low_only_queue). agent j \<noteq> ''rag''"
    by (simp add: low_only_queue_def job_seo_def)
  have h3: "0 < length (low low_only_queue) \<and> agent (low low_only_queue ! 0) = ''rag'' \<and>
        (\<forall>k<0. agent (low low_only_queue ! k) \<noteq> ''rag'')"
    by (simp add: low_only_queue_def job_q1_def)
  have h4: "\<exists>j \<in> set (high low_only_queue @ low low_only_queue). agent j = ''rag''"
    by (simp add: low_only_queue_def job_q1_def)
  have h5: "\<forall>j \<in> set (high reused_id_queue @ low reused_id_queue). agent j \<noteq> ''seo''"
    by (simp add: reused_id_queue_def job_again_def)
  note a = T [where s = overtake_queue and a = "''rag''", THEN conjunct1, THEN spec, THEN mp, OF h1]
  note b = T [where s = low_only_queue and a = "''rag''", THEN conjunct2, THEN conjunct1,
      THEN mp, OF h2, THEN spec, THEN mp, OF h3]
  note c = T [where s = low_only_queue and a = "''rag''", THEN conjunct2, THEN conjunct2,
      THEN conjunct1, THEN mp, OF h4]
  note d = T [where s = reused_id_queue and a = "''seo''", THEN conjunct2, THEN conjunct2,
      THEN conjunct2, THEN mp, OF h5]
  from a have a': "bring_forward_for_agent ''rag'' overtake_queue =
     (True, \<lparr>high = [job_q2, job_seo], low = [job_q1], inflight = []\<rparr>)
   \<and> peek_for_agent ''rag'' overtake_queue = Some \<lparr>job = job_q2, lane = ''high'', position = 1\<rparr>"
    by (simp add: overtake_queue_def)
  from b have b': "bring_forward_for_agent ''rag'' low_only_queue =
     (True, \<lparr>high = [job_q1, job_seo], low = [], inflight = []\<rparr>)
   \<and> peek_for_agent ''rag'' low_only_queue = Some \<lparr>job = job_q1, lane = ''low'', position = 0\<rparr>"
    by (simp add: low_only_queue_def)
  from b c have c': "fst (dequeue_for_agent ''rag'' (snd (bring_forward_for_agent ''rag'' low_only_queue))) =
       Some job_q1"
    by (simp add: low_only_queue_def)
  have "priority job_q1 = ''low''" by (simp add: job_q1_def)
  with a' b' c' d show ?thesis by blast
qed

section \<open>\<open>skip_next_for_agent\<close>\<close>

lemma find_erase_skip_prefix:
  "\<forall>x \<in> set xs. agent x \<noteq> a \<Longrightarrow>
   find_erase a (xs @ q) =
     (case find_erase a q of None \<Rightarrow> None | Some (r, q') \<Rightarrow> Some (r, xs @ q'))"
  by (induction xs) (auto split: option.splits)

lemma skip_next_high:
  assumes "i < length (high s)" "agent (high s ! i) = a" "\<forall>k<i. agent (high s ! k) \<noteq> a"
  shows "skip_next_for_agent a s =
           (True, s\<lparr>high := take i (high s) @ drop (Suc i) (high s) @ [high s ! i]\<rparr>)"
  using find_erase_at [OF assms] by (simp add: skip_next_for_agent_def)

lemma skip_next_low:
  assumes "\<forall>j \<in> set (high s). agent j \<noteq> a"
    and "i < length (low s)" "agent (low s ! i) = a" "\<forall>k<i. agent (low s ! k) \<noteq> a"
  shows "skip_next_for_agent a s =
           (True, s\<lparr>low := take i (low s) @ drop (Suc i) (low s) @ [low s ! i]\<rparr>)"
  using find_erase_at [OF assms(2-4)] find_erase_None [THEN iffD2, OF assms(1)]
  by (simp add: skip_next_for_agent_def)

lemma skip_next_none:
  assumes "\<forall>j \<in> set (high s). agent j \<noteq> a" "\<forall>j \<in> set (low s). agent j \<noteq> a"
  shows "skip_next_for_agent a s = (False, s)"
  using find_erase_None [THEN iffD2, OF assms(1)] find_erase_None [THEN iffD2, OF assms(2)]
  by (simp add: skip_next_for_agent_def)

lemma skip_next_single:
  assumes one: "length (filter (\<lambda>j. agent j = a) (high s @ low s)) = 1"
  shows "fst (skip_next_for_agent a s)"
    and "filter (\<lambda>j. agent j = a) (high (snd (skip_next_for_agent a s))) =
         filter (\<lambda>j. agent j = a) (high s)"
    and "filter (\<lambda>j. agent j = a) (low (snd (skip_next_for_agent a s))) =
         filter (\<lambda>j. agent j = a) (low s)"
    and "inflight (snd (skip_next_for_agent a s)) = inflight s"
proof -
  let ?P = "\<lambda>j. agent j = a"
  have all: "fst (skip_next_for_agent a s) \<and>
      filter ?P (high (snd (skip_next_for_agent a s))) = filter ?P (high s) \<and>
      filter ?P (low (snd (skip_next_for_agent a s))) = filter ?P (low s) \<and>
      inflight (snd (skip_next_for_agent a s)) = inflight s"
  proof (cases "find_erase a (high s)")
    case (Some p)
    then obtain j h where p: "find_erase a (high s) = Some (j, h)" by (cases p) auto
    from find_erase_Some [OF p] obtain xs ys where
      d: "high s = xs @ j # ys" "h = xs @ ys" "agent j = a" "\<forall>x \<in> set xs. agent x \<noteq> a"
      by blast
    from d have "filter ?P xs = []" by (simp add: filter_empty_conv)
    with d one have "filter ?P ys = []" by simp
    with d \<open>filter ?P xs = []\<close> p show ?thesis
      by (simp add: skip_next_for_agent_def)
  next
    case None
    then have nohigh: "filter ?P (high s) = []"
      by (simp add: find_erase_None filter_empty_conv)
    show ?thesis
    proof (cases "find_erase a (low s)")
      case None' : None
      then have "filter ?P (low s) = []"
        by (simp add: find_erase_None filter_empty_conv)
      with nohigh one show ?thesis by simp
    next
      case (Some p)
      then obtain j l where p: "find_erase a (low s) = Some (j, l)" by (cases p) auto
      from find_erase_Some [OF p] obtain xs ys where
        d: "low s = xs @ j # ys" "l = xs @ ys" "agent j = a" "\<forall>x \<in> set xs. agent x \<noteq> a"
        by blast
      from d have "filter ?P xs = []" by (simp add: filter_empty_conv)
      with d one nohigh have "filter ?P ys = []" by simp
      with d \<open>filter ?P xs = []\<close> p None show ?thesis
        by (simp add: skip_next_for_agent_def)
    qed
  qed
  from all show "fst (skip_next_for_agent a s)" by simp
  from all show "filter ?P (high (snd (skip_next_for_agent a s))) = filter ?P (high s)" by simp
  from all show "filter ?P (low (snd (skip_next_for_agent a s))) = filter ?P (low s)" by simp
  from all show "inflight (snd (skip_next_for_agent a s)) = inflight s" by simp
qed

text \<open>
  Claim C7. \<open>skip_next_for_agent a\<close> takes the job at the lowest index of the high lane
  whose agent is \<open>a\<close>, or of the low lane when the high lane has none, out of its lane
  and appends it to the end of that same lane, and returns true; the other lane and the
  inflight table stay as they are. With no queued job of \<open>a\<close> it returns false and the
  state is the one before. When exactly one job of \<open>a\<close> is queued the call returns true,
  the jobs of \<open>a\<close> in each lane are the ones before, and a dequeue for \<open>a\<close> returns the
  job it would have returned before the call.
\<close>

theorem skip_next_for_agent_rotates:
  "(\<forall>i. i < length (high s) \<and> agent (high s ! i) = a \<and> (\<forall>k<i. agent (high s ! k) \<noteq> a) \<longrightarrow>
      skip_next_for_agent a s =
        (True, s\<lparr>high := take i (high s) @ drop (Suc i) (high s) @ [high s ! i]\<rparr>))
   \<and> ((\<forall>j \<in> set (high s). agent j \<noteq> a) \<longrightarrow>
      (\<forall>i. i < length (low s) \<and> agent (low s ! i) = a \<and> (\<forall>k<i. agent (low s ! k) \<noteq> a) \<longrightarrow>
         skip_next_for_agent a s =
           (True, s\<lparr>low := take i (low s) @ drop (Suc i) (low s) @ [low s ! i]\<rparr>)))
   \<and> ((\<forall>j \<in> set (high s @ low s). agent j \<noteq> a) \<longrightarrow> skip_next_for_agent a s = (False, s))
   \<and> (length (filter (\<lambda>j. agent j = a) (high s @ low s)) = 1 \<longrightarrow>
      fst (skip_next_for_agent a s)
      \<and> filter (\<lambda>j. agent j = a) (high (snd (skip_next_for_agent a s))) =
          filter (\<lambda>j. agent j = a) (high s)
      \<and> filter (\<lambda>j. agent j = a) (low (snd (skip_next_for_agent a s))) =
          filter (\<lambda>j. agent j = a) (low s)
      \<and> inflight (snd (skip_next_for_agent a s)) = inflight s
      \<and> fst (dequeue_for_agent a (snd (skip_next_for_agent a s))) = fst (dequeue_for_agent a s)
      \<and> fst (dequeue_for_agent a s) \<noteq> None)"
proof (intro conjI allI impI)
  fix i
  assume "i < length (high s) \<and> agent (high s ! i) = a \<and> (\<forall>k<i. agent (high s ! k) \<noteq> a)"
  then show "skip_next_for_agent a s =
        (True, s\<lparr>high := take i (high s) @ drop (Suc i) (high s) @ [high s ! i]\<rparr>)"
    by (intro skip_next_high) simp_all
next
  fix i
  assume "\<forall>j \<in> set (high s). agent j \<noteq> a"
    and "i < length (low s) \<and> agent (low s ! i) = a \<and> (\<forall>k<i. agent (low s ! k) \<noteq> a)"
  then show "skip_next_for_agent a s =
           (True, s\<lparr>low := take i (low s) @ drop (Suc i) (low s) @ [low s ! i]\<rparr>)"
    by (intro skip_next_low) simp_all
next
  assume "\<forall>j \<in> set (high s @ low s). agent j \<noteq> a"
  then show "skip_next_for_agent a s = (False, s)"
    by (intro skip_next_none) auto
next
  assume one: "length (filter (\<lambda>j. agent j = a) (high s @ low s)) = 1"
  note single = skip_next_single [OF one]
  from single(1) show "fst (skip_next_for_agent a s)" .
  from single(2) show "filter (\<lambda>j. agent j = a) (high (snd (skip_next_for_agent a s))) =
          filter (\<lambda>j. agent j = a) (high s)" .
  from single(3) show "filter (\<lambda>j. agent j = a) (low (snd (skip_next_for_agent a s))) =
          filter (\<lambda>j. agent j = a) (low s)" .
  from single(4) show "inflight (snd (skip_next_for_agent a s)) = inflight s" .
  show "fst (dequeue_for_agent a (snd (skip_next_for_agent a s))) = fst (dequeue_for_agent a s)"
    by (simp only: dequeue_for_agent_fst single(2,3))
  from one show "fst (dequeue_for_agent a s) \<noteq> None"
    by (auto simp add: dequeue_for_agent_fst split: list.splits)
qed

text \<open>
  On sample queues: scenario S6 with the two jobs of the agent around a job of another
  agent in the low lane; a job of the agent second in the high lane; no job of the
  agent; one job of the agent in front of a job of another agent.
\<close>

theorem skip_next_for_agent_rotates_witness:
  "skip_next_for_agent ''rag'' overtake_queue =
     (True, \<lparr>high = [job_seo, job_q2], low = [job_q1], inflight = []\<rparr>)
   \<and> skip_next_for_agent ''rag'' rotate_queue =
     (True, \<lparr>high = [job_seo], low = [job_b, job_q1], inflight = [(''j2'', job_q2)]\<rparr>)
   \<and> skip_next_for_agent ''rag'' \<lparr>high = [], low = [job_b], inflight = []\<rparr> =
     (False, \<lparr>high = [], low = [job_b], inflight = []\<rparr>)
   \<and> fst (dequeue_for_agent ''rag'' (snd (skip_next_for_agent ''rag'' rotate_queue))) = Some job_q1"
proof -
  note T = skip_next_for_agent_rotates
  have h1: "1 < length (high overtake_queue) \<and> agent (high overtake_queue ! 1) = ''rag'' \<and>
        (\<forall>k<1. agent (high overtake_queue ! k) \<noteq> ''rag'')"
    by (simp add: overtake_queue_def job_seo_def job_q2_def)
  have h2: "\<forall>j \<in> set (high rotate_queue). agent j \<noteq> ''rag''"
    by (simp add: rotate_queue_def job_seo_def)
  have h3: "0 < length (low rotate_queue) \<and> agent (low rotate_queue ! 0) = ''rag'' \<and>
        (\<forall>k<0. agent (low rotate_queue ! k) \<noteq> ''rag'')"
    by (simp add: rotate_queue_def job_q1_def)
  have h4: "\<forall>j \<in> set (high \<lparr>high = [], low = [job_b], inflight = []\<rparr> @
                      low \<lparr>high = [], low = [job_b], inflight = []\<rparr>). agent j \<noteq> ''rag''"
    by (simp add: job_b_def)
  have h5: "length (filter (\<lambda>j. agent j = ''rag'') (high rotate_queue @ low rotate_queue)) = 1"
    by (simp add: rotate_queue_def job_seo_def job_q1_def job_b_def)
  note a = T [where s = overtake_queue and a = "''rag''", THEN conjunct1, THEN spec, THEN mp, OF h1]
  note b = T [where s = rotate_queue and a = "''rag''", THEN conjunct2, THEN conjunct1,
      THEN mp, OF h2, THEN spec, THEN mp, OF h3]
  note c = T [where s = "\<lparr>high = [], low = [job_b], inflight = []\<rparr>" and a = "''rag''",
      THEN conjunct2, THEN conjunct2, THEN conjunct1, THEN mp, OF h4]
  note d = T [where s = rotate_queue and a = "''rag''", THEN conjunct2, THEN conjunct2,
      THEN conjunct2, THEN mp, OF h5]
  from a have a': "skip_next_for_agent ''rag'' overtake_queue =
     (True, \<lparr>high = [job_seo, job_q2], low = [job_q1], inflight = []\<rparr>)"
    by (simp add: overtake_queue_def)
  from b have b': "skip_next_for_agent ''rag'' rotate_queue =
     (True, \<lparr>high = [job_seo], low = [job_b, job_q1], inflight = [(''j2'', job_q2)]\<rparr>)"
    by (simp add: rotate_queue_def)
  have "fst (dequeue_for_agent ''rag'' rotate_queue) = Some job_q1"
    by (simp add: dequeue_for_agent_def pop_from_def rotate_queue_def job_seo_def job_q1_def)
  with d have d': "fst (dequeue_for_agent ''rag'' (snd (skip_next_for_agent ''rag'' rotate_queue))) =
      Some job_q1"
    by simp
  from a' b' c d' show ?thesis by blast
qed

section \<open>Uniqueness of ids\<close>

lemma emplace_fresh:
  "keyed s \<Longrightarrow> job_id j \<notin> (\<lambda>kv. job_id (snd kv)) ` set (inflight s) \<Longrightarrow>
   emplace (job_id j) j (inflight s) = inflight s @ [(job_id j, j)]"
  by (auto simp add: emplace_def keyed_def)

lemma step_enqueue_inv:
  assumes "keyed s" "unique_ids s" "job_id j \<notin> set (live_ids s)"
  shows "keyed (step (Enqueue j) s)" and "unique_ids (step (Enqueue j) s)"
  using assms by (auto simp add: enqueue_def keyed_def unique_ids_def live_ids_def)

lemma pop_high_inv:
  assumes "keyed s" "unique_ids s" "find_erase a (high s) = Some (j, h)"
  shows "keyed (s\<lparr>high := h, inflight := emplace (job_id j) j (inflight s)\<rparr>)"
    and "unique_ids (s\<lparr>high := h, inflight := emplace (job_id j) j (inflight s)\<rparr>)"
proof -
  from find_erase_Some [OF assms(3)] obtain xs ys where
    d: "high s = xs @ j # ys" "h = xs @ ys" by blast
  with assms(2) have "job_id j \<notin> (\<lambda>kv. job_id (snd kv)) ` set (inflight s)"
    by (auto simp add: unique_ids_def live_ids_def)
  with assms(1) have e: "emplace (job_id j) j (inflight s) = inflight s @ [(job_id j, j)]"
    by (rule emplace_fresh)
  from assms(1) e show "keyed (s\<lparr>high := h, inflight := emplace (job_id j) j (inflight s)\<rparr>)"
    by (simp add: keyed_def)
  from assms(2) d e show "unique_ids (s\<lparr>high := h, inflight := emplace (job_id j) j (inflight s)\<rparr>)"
    by (auto simp add: unique_ids_def live_ids_def)
qed

lemma pop_low_inv:
  assumes "keyed s" "unique_ids s" "find_erase a (low s) = Some (j, l)"
  shows "keyed (s\<lparr>low := l, inflight := emplace (job_id j) j (inflight s)\<rparr>)"
    and "unique_ids (s\<lparr>low := l, inflight := emplace (job_id j) j (inflight s)\<rparr>)"
proof -
  from find_erase_Some [OF assms(3)] obtain xs ys where
    d: "low s = xs @ j # ys" "l = xs @ ys" by blast
  with assms(2) have "job_id j \<notin> (\<lambda>kv. job_id (snd kv)) ` set (inflight s)"
    by (auto simp add: unique_ids_def live_ids_def)
  with assms(1) have e: "emplace (job_id j) j (inflight s) = inflight s @ [(job_id j, j)]"
    by (rule emplace_fresh)
  from assms(1) e show "keyed (s\<lparr>low := l, inflight := emplace (job_id j) j (inflight s)\<rparr>)"
    by (simp add: keyed_def)
  from assms(2) d e show "unique_ids (s\<lparr>low := l, inflight := emplace (job_id j) j (inflight s)\<rparr>)"
    by (auto simp add: unique_ids_def live_ids_def)
qed

lemma dequeue_for_agent_cases:
  "dequeue_for_agent a s =
     (case find_erase a (high s) of
        Some (j, h) \<Rightarrow> (Some j, s\<lparr>high := h, inflight := emplace (job_id j) j (inflight s)\<rparr>)
      | None \<Rightarrow>
          (case find_erase a (low s) of
             Some (j, l) \<Rightarrow> (Some j, s\<lparr>low := l, inflight := emplace (job_id j) j (inflight s)\<rparr>)
           | None \<Rightarrow> (None, s)))"
  by (simp add: dequeue_for_agent_def pop_from_def split: option.splits)

lemma step_dequeue_inv:
  assumes "keyed s" "unique_ids s"
  shows "keyed (step (Dequeue a) s)" and "unique_ids (step (Dequeue a) s)"
  using assms pop_high_inv [OF assms] pop_low_inv [OF assms]
  by (auto simp add: dequeue_for_agent_cases split: option.splits)

lemma step_complete_inv:
  assumes "keyed s" "unique_ids s"
  shows "keyed (step (Complete i ok d) s)" and "unique_ids (step (Complete i ok d) s)"
  using assms
  by (auto simp add: complete_def erase_key_def keyed_def unique_ids_def live_ids_def
      distinct_map_filter)

lemma cancel_queued_for_agent_eq:
  "cancel_queued_for_agent a s =
     (length (high s) - length (filter (\<lambda>j. agent j \<noteq> a) (high s)) +
      (length (low s) - length (filter (\<lambda>j. agent j \<noteq> a) (low s))),
      s\<lparr>high := filter (\<lambda>j. agent j \<noteq> a) (high s),
        low := filter (\<lambda>j. agent j \<noteq> a) (low s)\<rparr>)"
  by (simp add: cancel_queued_for_agent_def remove_from_def Let_def)

lemma step_cancel_inv:
  assumes "keyed s" "unique_ids s"
  shows "keyed (step (Cancel a) s)" and "unique_ids (step (Cancel a) s)"
  using assms
  by (auto simp add: cancel_queued_for_agent_eq keyed_def unique_ids_def
      live_ids_def distinct_map_filter)

lemma step_skip_next_inv:
  assumes "keyed s" "unique_ids s"
  shows "keyed (step (SkipNext a) s)" and "unique_ids (step (SkipNext a) s)"
proof -
  show "keyed (step (SkipNext a) s)"
    using assms(1) by (simp add: skip_next_for_agent_def keyed_def split: option.splits)
  show "unique_ids (step (SkipNext a) s)"
  proof (cases "find_erase a (high s)")
    case (Some p)
    then obtain j h where p: "find_erase a (high s) = Some (j, h)" by (cases p) auto
    from find_erase_Some [OF p] obtain xs ys where "high s = xs @ j # ys" "h = xs @ ys" by blast
    with assms(2) p show ?thesis
      by (auto simp add: skip_next_for_agent_def unique_ids_def live_ids_def)
  next
    case None
    show ?thesis
    proof (cases "find_erase a (low s)")
      case None' : None
      with None assms(2) show ?thesis by (simp add: skip_next_for_agent_def)
    next
      case (Some p)
      then obtain j l where p: "find_erase a (low s) = Some (j, l)" by (cases p) auto
      from find_erase_Some [OF p] obtain xs ys where "low s = xs @ j # ys" "l = xs @ ys" by blast
      with assms(2) p None show ?thesis
        by (auto simp add: skip_next_for_agent_def unique_ids_def live_ids_def)
    qed
  qed
qed

lemma step_bring_forward_inv:
  assumes "keyed s" "unique_ids s"
  shows "keyed (step (BringForward a) s)" and "unique_ids (step (BringForward a) s)"
proof -
  show "keyed (step (BringForward a) s)"
    using assms(1) by (simp add: bring_forward_for_agent_def keyed_def split: option.splits)
  show "unique_ids (step (BringForward a) s)"
  proof (cases "find_erase a (high s)")
    case (Some p)
    then obtain j h where p: "find_erase a (high s) = Some (j, h)" by (cases p) auto
    from find_erase_Some [OF p] obtain xs ys where "high s = xs @ j # ys" "h = xs @ ys" by blast
    with assms(2) p show ?thesis
      by (auto simp add: bring_forward_for_agent_def unique_ids_def live_ids_def)
  next
    case None
    show ?thesis
    proof (cases "find_erase a (low s)")
      case None' : None
      with None assms(2) show ?thesis by (simp add: bring_forward_for_agent_def)
    next
      case (Some p)
      then obtain j l where p: "find_erase a (low s) = Some (j, l)" by (cases p) auto
      from find_erase_Some [OF p] obtain xs ys where "low s = xs @ j # ys" "l = xs @ ys" by blast
      with assms(2) p None show ?thesis
        by (auto simp add: bring_forward_for_agent_def unique_ids_def live_ids_def)
    qed
  qed
qed

lemma step_inv:
  assumes "keyed s" "unique_ids s" "fresh_ids [x] s"
  shows "keyed (step x s) \<and> unique_ids (step x s)"
proof (cases x)
  case (Enqueue j)
  with assms have "job_id j \<notin> set (live_ids s)" by simp
  with assms(1,2) Enqueue show ?thesis
    using step_enqueue_inv by blast
next
  case (Dequeue a)
  with assms(1,2) show ?thesis using step_dequeue_inv by blast
next
  case (Complete i ok d)
  with assms(1,2) show ?thesis using step_complete_inv by blast
next
  case (Cancel a)
  with assms(1,2) show ?thesis using step_cancel_inv by blast
next
  case (SkipNext a)
  with assms(1,2) show ?thesis using step_skip_next_inv by blast
next
  case (BringForward a)
  with assms(1,2) show ?thesis using step_bring_forward_inv by blast
qed

lemma fresh_ids_Cons: "fresh_ids (x # xs) s \<longleftrightarrow> fresh_ids [x] s \<and> fresh_ids xs (step x s)"
  by (cases x) simp_all

lemma run_inv:
  "keyed s \<Longrightarrow> unique_ids s \<Longrightarrow> fresh_ids xs s \<Longrightarrow> keyed (run xs s) \<and> unique_ids (run xs s)"
proof (induction xs arbitrary: s)
  case Nil
  then show ?case by simp
next
  case (Cons x xs)
  from Cons.prems(3) fresh_ids_Cons [of x xs s]
  have f: "fresh_ids [x] s" "fresh_ids xs (step x s)"
    by blast+
  from step_inv [OF Cons.prems(1,2) f(1)] have "keyed (step x s)" "unique_ids (step x s)"
    by simp_all
  from Cons.IH [OF this f(2)] show ?case by simp
qed

lemma empty_queue_inv: "keyed empty_queue" "unique_ids empty_queue"
  by (simp_all add: keyed_def unique_ids_def live_ids_def empty_queue_def)

text \<open>
  No operation of the queue looks at an id, so the uniqueness of the ids rests on the
  callers of \<open>enqueue\<close>: in every state reached from the empty
  queue by a run of enqueue, dequeue_for_agent, complete, cancel_queued_for_agent,
  skip_next_for_agent and bring_forward_for_agent in which each enqueued job has an id
  that is at that moment in neither lane nor in the inflight table, no id is twice in
  the high lane, the low lane and the inflight table taken together, and each inflight
  entry has the id of its job as key.
\<close>

theorem unique_ids_of_fresh_runs:
  "fresh_ids xs empty_queue \<Longrightarrow>
   unique_ids (run xs empty_queue) \<and> keyed (run xs empty_queue)"
  using run_inv [OF empty_queue_inv] by blast

text \<open>Scenario S1 followed by a dequeue, a skip and a complete.\<close>

theorem unique_ids_of_fresh_runs_witness:
  "fresh_ids [Enqueue job_q1, Enqueue job_q2, Dequeue ''rag'', SkipNext ''rag'',
              Complete ''j2'' True []] empty_queue
   \<and> unique_ids (run [Enqueue job_q1, Enqueue job_q2, Dequeue ''rag'', SkipNext ''rag'',
                       Complete ''j2'' True []] empty_queue)
   \<and> run [Enqueue job_q1, Enqueue job_q2, Dequeue ''rag'', SkipNext ''rag'',
           Complete ''j2'' True []] empty_queue = \<lparr>high = [], low = [job_q1], inflight = []\<rparr>"
proof -
  have f: "fresh_ids [Enqueue job_q1, Enqueue job_q2, Dequeue ''rag'', SkipNext ''rag'',
              Complete ''j2'' True []] empty_queue"
    by (simp add: empty_queue_def live_ids_def enqueue_def dequeue_for_agent_def pop_from_def
        emplace_def job_q1_def job_q2_def)
  have r: "run [Enqueue job_q1, Enqueue job_q2, Dequeue ''rag'', SkipNext ''rag'',
           Complete ''j2'' True []] empty_queue = \<lparr>high = [], low = [job_q1], inflight = []\<rparr>"
    by (simp add: empty_queue_def enqueue_def dequeue_for_agent_def pop_from_def
        emplace_def skip_next_for_agent_def complete_def erase_key_def job_q1_def job_q2_def)
  from unique_ids_of_fresh_runs [OF f] f r show ?thesis by simp
qed

text \<open>
  Claim C2: in every state the operations reach, no id is twice in the high lane, the
  low lane and the inflight table taken together. \<open>job.hpp\<close> calls the id unique, yet
  neither \<open>/enqueue\<close> nor \<open>enqueue\<close> compares the id it is given with the ids that are
  live. Two requests to \<open>/enqueue\<close> with one id leave the id twice in the low lane; a
  request to \<open>/enqueue\<close> with the id of an inflight job leaves the id in the high lane
  and in the inflight table.
\<close>

theorem unique_ids_breach:
  "serve same_id_twice idle_server =
     \<lparr>g_queue = \<lparr>high = [], low = [job_q1, job_q1], inflight = []\<rparr>, g_paused_agents = []\<rparr>
   \<and> \<not> unique_ids (g_queue (serve same_id_twice idle_server))
   \<and> \<not> unique_ids (g_queue (serve reuse_inflight_id idle_server))
   \<and> \<not> unique_ids (run [Enqueue job_q1, Enqueue job_q1] empty_queue)
   \<and> \<not> unique_ids (run [Enqueue job_q1, Dequeue ''rag'', Enqueue job_again] empty_queue)"
  by (simp add: same_id_twice_def reuse_inflight_id_def q1_body_def again_body_def http_eval
      unique_ids_def live_ids_def job_q1_def job_again_def)

text \<open>
  What holds of the inflight table after every run, whatever the ids are: each entry
  has the id of its job as key and no key is there twice.
\<close>

lemma step_inflight_keys:
  assumes "keyed s" "distinct (map fst (inflight s))"
  shows "keyed (step x s) \<and> distinct (map fst (inflight (step x s)))"
proof (cases x)
  case (Enqueue j)
  with assms show ?thesis by (simp add: enqueue_def keyed_def)
next
  case (Dequeue a)
  with assms show ?thesis
    by (auto simp add: dequeue_for_agent_cases emplace_def keyed_def split: option.splits)
next
  case (Complete i ok d)
  with assms show ?thesis
    by (auto simp add: complete_def erase_key_def keyed_def distinct_map_filter)
next
  case (Cancel a)
  with assms show ?thesis by (simp add: cancel_queued_for_agent_eq keyed_def)
next
  case (SkipNext a)
  with assms show ?thesis
    by (simp add: skip_next_for_agent_def keyed_def split: option.splits)
next
  case (BringForward a)
  with assms show ?thesis
    by (simp add: bring_forward_for_agent_def keyed_def split: option.splits)
qed

lemma inflight_keys_of_runs:
  "keyed (run xs empty_queue) \<and> distinct (map fst (inflight (run xs empty_queue)))"
proof -
  have "keyed s \<Longrightarrow> distinct (map fst (inflight s)) \<Longrightarrow>
        keyed (run xs s) \<and> distinct (map fst (inflight (run xs s)))" for s
  proof (induction xs arbitrary: s)
    case Nil
    then show ?case by simp
  next
    case (Cons x xs)
    from step_inflight_keys [OF Cons.prems, of x]
    have "keyed (step x s)" "distinct (map fst (inflight (step x s)))" by simp_all
    from Cons.IH [OF this] show ?case by simp
  qed
  from this [of empty_queue] show ?thesis
    by (simp add: keyed_def empty_queue_def)
qed

section \<open>Conservation of jobs\<close>

lemma find_erase_length: "find_erase a q = Some (j, q') \<Longrightarrow> length q = Suc (length q')"
  using find_erase_Some [of a q j q'] by auto

lemma lanes_step:
  "enqueued (tally_step x s t) - dequeued (tally_step x s t) - cancelled (tally_step x s t)
     - (int (length (high (step x s))) + int (length (low (step x s))))
   = enqueued t - dequeued t - cancelled t - (int (length (high s)) + int (length (low s)))"
proof (cases x)
  case (Enqueue j)
  then show ?thesis by (simp add: enqueue_def)
next
  case (Dequeue a)
  then show ?thesis
    by (auto simp add: dequeue_for_agent_cases split: option.splits dest: find_erase_length)
next
  case (Complete i ok d)
  then show ?thesis by (simp add: complete_def)
next
  case (Cancel a)
  have ar: "c \<le> a \<Longrightarrow> d \<le> b \<Longrightarrow> int (a + b - (c + d)) = int a + int b - int c - int d"
    for a b c d :: nat
    by arith
  from Cancel show ?thesis
    by (simp add: cancel_queued_for_agent_eq ar)
next
  case (SkipNext a)
  then show ?thesis
    by (auto simp add: skip_next_for_agent_def split: option.splits dest: find_erase_length)
next
  case (BringForward a)
  then show ?thesis
    by (auto simp add: bring_forward_for_agent_def split: option.splits dest: find_erase_length)
qed

lemma lanes_run:
  "enqueued (tally_of xs s t) - dequeued (tally_of xs s t) - cancelled (tally_of xs s t)
     - (int (length (high (run xs s))) + int (length (low (run xs s))))
   = enqueued t - dequeued t - cancelled t - (int (length (high s)) + int (length (low s)))"
proof (induction xs arbitrary: s t)
  case Nil
  show ?case by simp
next
  case (Cons x xs)
  from Cons.IH [of "step x s" "tally_step x s t"] lanes_step [of x s t]
  show ?case by simp
qed

lemma erase_key_length:
  "distinct (map fst m) \<Longrightarrow> i \<in> fst ` set m \<Longrightarrow> Suc (length (erase_key i m)) = length m"
proof (induction m)
  case Nil
  then show ?case by simp
next
  case (Cons kv m)
  show ?case
  proof (cases "fst kv = i")
    case True
    from Cons.prems(1) have "fst kv \<notin> fst ` set m" by simp
    with True have "\<forall>x \<in> set m. fst x \<noteq> i" by blast
    then have "filter (\<lambda>x. fst x \<noteq> i) m = m" by (simp add: filter_id_conv)
    with True show ?thesis by (simp add: erase_key_def)
  next
    case False
    with Cons.prems have "distinct (map fst m)" "i \<in> fst ` set m" by auto
    from Cons.IH [OF this] False show ?thesis by (simp add: erase_key_def)
  qed
qed

lemma keyed_distinct_keys:
  assumes "keyed s" "unique_ids s"
  shows "distinct (map fst (inflight s))"
proof -
  from assms(1) have eq: "map fst (inflight s) = map (\<lambda>kv. job_id (snd kv)) (inflight s)"
    by (simp add: keyed_def)
  from assms(2) have "distinct (map (\<lambda>kv. job_id (snd kv)) (inflight s))"
    by (simp add: unique_ids_def live_ids_def)
  then show ?thesis unfolding eq .
qed

lemma emplace_queued:
  assumes "keyed s" "unique_ids s" "j \<in> set (high s) \<union> set (low s)"
  shows "emplace (job_id j) j (inflight s) = inflight s @ [(job_id j, j)]"
proof -
  from assms(2,3) have "job_id j \<notin> (\<lambda>kv. job_id (snd kv)) ` set (inflight s)"
    by (auto simp add: unique_ids_def live_ids_def)
  with assms(1) show ?thesis by (rule emplace_fresh)
qed

lemma find_erase_mem: "find_erase a q = Some (j, q') \<Longrightarrow> j \<in> set q"
  using find_erase_Some [of a q j q'] by auto

lemma completes_inflight_Cons:
  "completes_inflight (x # xs) s \<longleftrightarrow>
     completes_inflight [x] s \<and> completes_inflight xs (step x s)"
  by (cases x) simp_all

lemma inflight_step:
  assumes "keyed s" "unique_ids s" "completes_inflight [x] s"
  shows "dequeued (tally_step x s t) - completed (tally_step x s t)
           - int (length (inflight (step x s)))
         = dequeued t - completed t - int (length (inflight s))"
proof (cases x)
  case (Enqueue j)
  then show ?thesis by (simp add: enqueue_def)
next
  case (Dequeue a)
  show ?thesis
  proof (cases "find_erase a (high s)")
    case (Some p)
    then obtain j h where p: "find_erase a (high s) = Some (j, h)" by (cases p) auto
    from find_erase_mem [OF p] have "j \<in> set (high s) \<union> set (low s)" by simp
    from emplace_queued [OF assms(1,2) this] p Dequeue show ?thesis
      by (simp add: dequeue_for_agent_cases)
  next
    case None
    show ?thesis
    proof (cases "find_erase a (low s)")
      case None' : None
      with None Dequeue show ?thesis by (simp add: dequeue_for_agent_cases)
    next
      case (Some p)
      then obtain j l where p: "find_erase a (low s) = Some (j, l)" by (cases p) auto
      from find_erase_mem [OF p] have "j \<in> set (high s) \<union> set (low s)" by simp
      from emplace_queued [OF assms(1,2) this] p None Dequeue show ?thesis
        by (simp add: dequeue_for_agent_cases)
    qed
  qed
next
  case (Complete i ok d)
  with assms(3) have "i \<in> fst ` set (inflight s)" by simp
  from erase_key_length [OF keyed_distinct_keys [OF assms(1,2)] this] Complete
  show ?thesis by (simp add: complete_def)
next
  case (Cancel a)
  then show ?thesis by (simp add: cancel_queued_for_agent_eq)
next
  case (SkipNext a)
  then show ?thesis by (simp add: skip_next_for_agent_def split: option.splits)
next
  case (BringForward a)
  then show ?thesis by (simp add: bring_forward_for_agent_def split: option.splits)
qed

lemma inflight_run:
  "keyed s \<Longrightarrow> unique_ids s \<Longrightarrow> fresh_ids xs s \<Longrightarrow> completes_inflight xs s \<Longrightarrow>
   dequeued (tally_of xs s t) - completed (tally_of xs s t) - int (length (inflight (run xs s)))
   = dequeued t - completed t - int (length (inflight s))"
proof (induction xs arbitrary: s t)
  case Nil
  show ?case by simp
next
  case (Cons x xs)
  from Cons.prems(3) fresh_ids_Cons [of x xs s]
  have f: "fresh_ids [x] s" "fresh_ids xs (step x s)" by blast+
  from Cons.prems(4) completes_inflight_Cons [of x xs s]
  have c: "completes_inflight [x] s" "completes_inflight xs (step x s)" by blast+
  from step_inv [OF Cons.prems(1,2) f(1)] have i: "keyed (step x s)" "unique_ids (step x s)"
    by simp_all
  from Cons.IH [OF i f(2) c(2), of "tally_step x s t"]
    inflight_step [OF Cons.prems(1,2) c(1), of t]
  show ?case by simp
qed

text \<open>
  Claim C9, as the code has it. After every run of operations from the empty queue,
  the enqueue calls less the dequeue calls that returned a job less the sum of the
  counts the cancel calls returned is the size of the high lane plus the size of the
  low lane of the snapshot. The dequeue calls that returned a job less the complete
  calls is the size of the inflight table of the snapshot after every run in which each
  complete names an id that is inflight at that moment and each enqueue brings an id
  that is in none of the three places.
\<close>

theorem snapshot_conservation:
  "enqueued (tally_of xs empty_queue no_calls) - dequeued (tally_of xs empty_queue no_calls)
     - cancelled (tally_of xs empty_queue no_calls)
   = int (length (snap_high (snapshot (run xs empty_queue))))
     + int (length (snap_low (snapshot (run xs empty_queue))))
   \<and> (fresh_ids xs empty_queue \<and> completes_inflight xs empty_queue \<longrightarrow>
      dequeued (tally_of xs empty_queue no_calls) - completed (tally_of xs empty_queue no_calls)
      = int (length (snap_inflight (snapshot (run xs empty_queue)))))"
proof (intro conjI impI)
  from lanes_run [of xs empty_queue no_calls]
  show "enqueued (tally_of xs empty_queue no_calls) - dequeued (tally_of xs empty_queue no_calls)
     - cancelled (tally_of xs empty_queue no_calls)
   = int (length (snap_high (snapshot (run xs empty_queue))))
     + int (length (snap_low (snapshot (run xs empty_queue))))"
    by (simp add: snapshot_def empty_queue_def no_calls_def)
next
  assume "fresh_ids xs empty_queue \<and> completes_inflight xs empty_queue"
  then have "fresh_ids xs empty_queue" "completes_inflight xs empty_queue" by simp_all
  from inflight_run [OF empty_queue_inv this, of no_calls]
  show "dequeued (tally_of xs empty_queue no_calls) - completed (tally_of xs empty_queue no_calls)
      = int (length (snap_inflight (snapshot (run xs empty_queue))))"
    by (simp add: snapshot_def empty_queue_def no_calls_def)
qed

text \<open>
  Three enqueues, a dequeue, a cancel that removes one job and the complete of the
  dequeued job.
\<close>

theorem snapshot_conservation_witness:
  "fresh_ids drain_run empty_queue \<and> completes_inflight drain_run empty_queue
   \<and> tally_of drain_run empty_queue no_calls =
       \<lparr>enqueued = 3, dequeued = 1, cancelled = 1, completed = 1\<rparr>
   \<and> snapshot (run drain_run empty_queue) =
       \<lparr>snap_high = [job_seo], snap_low = [], snap_inflight = []\<rparr>
   \<and> dequeued (tally_of drain_run empty_queue no_calls)
       - completed (tally_of drain_run empty_queue no_calls)
     = int (length (snap_inflight (snapshot (run drain_run empty_queue))))"
proof -
  note defs = drain_run_def empty_queue_def no_calls_def live_ids_def enqueue_def
    dequeue_for_agent_def pop_from_def emplace_def cancel_queued_for_agent_eq complete_def
    erase_key_def snapshot_def job_q1_def job_q2_def job_seo_def
  have f: "fresh_ids drain_run empty_queue" by (simp add: defs)
  have c: "completes_inflight drain_run empty_queue" by (simp add: defs)
  have t: "tally_of drain_run empty_queue no_calls =
       \<lparr>enqueued = 3, dequeued = 1, cancelled = 1, completed = 1\<rparr>"
    by (simp add: defs)
  have r: "snapshot (run drain_run empty_queue) =
       \<lparr>snap_high = [job_seo], snap_low = [], snap_inflight = []\<rparr>"
    by (simp add: defs)
  note e = snapshot_conservation [of drain_run, THEN conjunct2, THEN mp, OF conjI [OF f c]]
  from f c t r e show ?thesis by blast
qed

text \<open>
  A job is enqueued, dequeued and completed twice, as a worker that retries its report
  does: one dequeue returned a job, two complete calls were made, and the inflight
  table is empty, not of size \<open>-1\<close>.
\<close>

theorem snapshot_conservation_counterexample:
  "dequeued (tally_of double_complete_run empty_queue no_calls)
     - completed (tally_of double_complete_run empty_queue no_calls)
   \<noteq> int (length (snap_inflight (snapshot (run double_complete_run empty_queue))))"
  by (simp add: double_complete_run_def empty_queue_def no_calls_def enqueue_def
      dequeue_for_agent_def pop_from_def emplace_def complete_def erase_key_def snapshot_def
      job_q1_def)

section \<open>The route \<open>/complete/{id}\<close>\<close>

lemma dispatch_complete:
  "http_method r = ''POST'' \<Longrightarrow> take (length ''/complete/'') (url r) = ''/complete/'' \<Longrightarrow>
   dispatch rnd r s = route_complete r s"
  by (auto simp add: dispatch_def)

text \<open>
  Claim C10. A POST whose path is exactly \<open>/complete/\<close> is answered 400 with the body
  \<open>{"error": "id required"}\<close>, whatever its body is and whether it parses or not, and
  the queue and the pause set are the ones before.
\<close>

theorem complete_without_id:
  "http_method r = ''POST'' \<Longrightarrow> url r = ''/complete/'' \<Longrightarrow>
   handler rnd r s =
     (\<lparr>status = 400, content = Document (JObj [(''error'', JStr ''id required'')]),
       ctype = ''application/json''\<rparr>, s)"
  by (simp add: handler_def dispatch_complete route_complete_def json_response_def
      send_response_def MHD_HTTP_BAD_REQUEST_def)

text \<open>A request to \<open>/complete/\<close> whose body is no JSON text, on a server with work.\<close>

theorem complete_without_id_witness:
  "http_method complete_no_id = ''POST'' \<and> url complete_no_id = ''/complete/''
   \<and> body complete_no_id = None
   \<and> handler (0, 0) complete_no_id busy_server =
     (\<lparr>status = 400, content = Document (JObj [(''error'', JStr ''id required'')]),
       ctype = ''application/json''\<rparr>, busy_server)"
proof -
  have m: "http_method complete_no_id = ''POST''" and u: "url complete_no_id = ''/complete/''"
    and b: "body complete_no_id = None"
    by (simp_all add: complete_no_id_def)
  from complete_without_id [OF m u, of "(0, 0)" busy_server] m u b show ?thesis by simp
qed

lemma route_complete_ok:
  assumes "url r = ''/complete/'' @ i" "i \<noteq> []" "body r = Some j"
    and "value_string j ''status'' ''ok'' = Inr st" "value_string j ''error'' [] = Inr e"
  shows "route_complete r s =
     Inr (\<lparr>status = 200, content = Document (JObj [(''ok'', JBool True)]),
           ctype = ''application/json''\<rparr>,
          s\<lparr>g_queue := complete i (st = ''ok'') e (g_queue s)\<rparr>)"
  using assms
  by (simp add: route_complete_def bind_exn_def json_response_def send_response_def
      MHD_HTTP_OK_def)

lemma complete_absent: "i \<notin> fst ` set (inflight q) \<Longrightarrow> complete i ok d q = q"
proof -
  assume "i \<notin> fst ` set (inflight q)"
  then have "\<forall>kv \<in> set (inflight q). fst kv \<noteq> i" by auto
  then have "filter (\<lambda>kv. fst kv \<noteq> i) (inflight q) = inflight q"
    by (simp add: filter_id_conv)
  then show ?thesis by (simp add: complete_def erase_key_def)
qed

lemma complete_removes: "i \<notin> fst ` set (inflight (complete i ok d q))"
  by (auto simp add: complete_def erase_key_def)

text \<open>
  Claim C8. \<open>complete\<close> is a total function of the state: it erases the entry of the id
  from the inflight table, keeps every other entry and both lanes, and changes nothing
  when the id has no entry; a second complete of the same id changes nothing. A POST
  to \<open>/complete/{id}\<close> with a non-empty id and a body as the interface describes it (a
  JSON object whose members \<open>status\<close> and \<open>error\<close>, where present, are strings) is
  answered 200 with \<open>{"ok": true}\<close> and makes that call; for an id that is not inflight
  the state of the server is the one before, so a second such request for the same id
  is answered 200 and changes nothing.
\<close>

theorem complete_idempotent:
  "high (complete i ok d q) = high q \<and> low (complete i ok d q) = low q
   \<and> inflight (complete i ok d q) = filter (\<lambda>kv. fst kv \<noteq> i) (inflight q)
   \<and> i \<notin> fst ` set (inflight (complete i ok d q))
   \<and> (i \<notin> fst ` set (inflight q) \<longrightarrow> complete i ok d q = q)
   \<and> complete i ok' d' (complete i ok d q) = complete i ok d q
   \<and> (\<forall>r j st e.
        http_method r = ''POST'' \<and> url r = ''/complete/'' @ i \<and> i \<noteq> [] \<and> body r = Some j \<and>
        value_string j ''status'' ''ok'' = Inr st \<and> value_string j ''error'' [] = Inr e \<longrightarrow>
        handler rnd r s =
          (\<lparr>status = 200, content = Document (JObj [(''ok'', JBool True)]),
            ctype = ''application/json''\<rparr>,
           s\<lparr>g_queue := complete i (st = ''ok'') e (g_queue s)\<rparr>)
        \<and> (i \<notin> fst ` set (inflight (g_queue s)) \<longrightarrow>
             handler rnd r s =
               (\<lparr>status = 200, content = Document (JObj [(''ok'', JBool True)]),
                 ctype = ''application/json''\<rparr>, s))
        \<and> handler rnd' r (snd (handler rnd r s)) =
            (\<lparr>status = 200, content = Document (JObj [(''ok'', JBool True)]),
              ctype = ''application/json''\<rparr>, snd (handler rnd r s)))"
proof (intro conjI allI impI)
  show "high (complete i ok d q) = high q" by (simp add: complete_def)
  show "low (complete i ok d q) = low q" by (simp add: complete_def)
  show "inflight (complete i ok d q) = filter (\<lambda>kv. fst kv \<noteq> i) (inflight q)"
    by (simp add: complete_def erase_key_def)
  show "i \<notin> fst ` set (inflight (complete i ok d q))" by (rule complete_removes)
  show "complete i ok' d' (complete i ok d q) = complete i ok d q"
    by (rule complete_absent) (rule complete_removes)
next
  assume "i \<notin> fst ` set (inflight q)"
  then show "complete i ok d q = q" by (rule complete_absent)
next
  fix r :: request and j st e
  assume h: "http_method r = ''POST'' \<and> url r = ''/complete/'' @ i \<and> i \<noteq> [] \<and> body r = Some j \<and>
        value_string j ''status'' ''ok'' = Inr st \<and> value_string j ''error'' [] = Inr e"
  then have d: "dispatch rn r t = route_complete r t" for rn t
    by (intro dispatch_complete) simp_all
  have rc: "route_complete r t =
     Inr (\<lparr>status = 200, content = Document (JObj [(''ok'', JBool True)]),
           ctype = ''application/json''\<rparr>,
          t\<lparr>g_queue := complete i (st = ''ok'') e (g_queue t)\<rparr>)" for t
    using h route_complete_ok [of r i j st e t] by blast
  show one: "handler rnd r s =
          (\<lparr>status = 200, content = Document (JObj [(''ok'', JBool True)]),
            ctype = ''application/json''\<rparr>,
           s\<lparr>g_queue := complete i (st = ''ok'') e (g_queue s)\<rparr>)"
    by (simp add: handler_def d rc)
  have two: "handler rn r t =
          (\<lparr>status = 200, content = Document (JObj [(''ok'', JBool True)]),
            ctype = ''application/json''\<rparr>, t)"
    if "i \<notin> fst ` set (inflight (g_queue t))" for rn t
    using complete_absent [OF that] by (simp add: handler_def d rc)
  have "i \<notin> fst ` set (inflight (g_queue (snd (handler rnd r s))))"
    by (simp add: one complete_removes)
  then show "handler rnd' r (snd (handler rnd r s)) =
            (\<lparr>status = 200, content = Document (JObj [(''ok'', JBool True)]),
              ctype = ''application/json''\<rparr>, snd (handler rnd r s))"
    by (rule two)
  assume "i \<notin> fst ` set (inflight (g_queue s))"
  then show "handler rnd r s =
               (\<lparr>status = 200, content = Document (JObj [(''ok'', JBool True)]),
                 ctype = ''application/json''\<rparr>, s)"
    by (rule two)
qed

text \<open>
  The report of a failed job that is inflight, sent twice: the first request retires
  the job, the second finds no entry; the lanes are the ones before. The report for an
  id the server has never seen changes nothing.
\<close>

theorem complete_idempotent_witness:
  "''j2'' \<in> fst ` set (inflight (g_queue busy_server))
   \<and> handler (0, 0) complete_j2 busy_server =
       (\<lparr>status = 200, content = Document (JObj [(''ok'', JBool True)]),
         ctype = ''application/json''\<rparr>,
        \<lparr>g_queue = \<lparr>high = [job_seo], low = [job_q1, job_b], inflight = []\<rparr>,
         g_paused_agents = [''seo'']\<rparr>)
   \<and> ''j2'' \<notin> fst ` set (inflight (g_queue (snd (handler (0, 0) complete_j2 busy_server))))
   \<and> handler (1, 1) complete_j2 (snd (handler (0, 0) complete_j2 busy_server)) =
       (\<lparr>status = 200, content = Document (JObj [(''ok'', JBool True)]),
         ctype = ''application/json''\<rparr>, snd (handler (0, 0) complete_j2 busy_server))
   \<and> ''zz'' \<notin> fst ` set (inflight (g_queue busy_server))
   \<and> complete ''zz'' True [] (g_queue busy_server) = g_queue busy_server
   \<and> handler (0, 0) complete_unknown busy_server =
       (\<lparr>status = 200, content = Document (JObj [(''ok'', JBool True)]),
         ctype = ''application/json''\<rparr>, busy_server)"
proof -
  have h: "http_method complete_j2 = ''POST'' \<and> url complete_j2 = ''/complete/'' @ ''j2'' \<and>
      ''j2'' \<noteq> [] \<and>
      body complete_j2 = Some (JObj [(''status'', JStr ''error''), (''error'', JStr ''boom'')]) \<and>
      value_string (JObj [(''status'', JStr ''error''), (''error'', JStr ''boom'')]) ''status'' ''ok''
        = Inr ''error'' \<and>
      value_string (JObj [(''status'', JStr ''error''), (''error'', JStr ''boom'')]) ''error'' []
        = Inr ''boom''"
    by (simp add: complete_j2_def value_string_def)
  have h': "http_method complete_unknown = ''POST'' \<and> url complete_unknown = ''/complete/'' @ ''zz'' \<and>
      ''zz'' \<noteq> [] \<and> body complete_unknown = Some (JObj [(''status'', JStr ''ok'')]) \<and>
      value_string (JObj [(''status'', JStr ''ok'')]) ''status'' ''ok'' = Inr ''ok'' \<and>
      value_string (JObj [(''status'', JStr ''ok'')]) ''error'' [] = Inr []"
    by (simp add: complete_unknown_def value_string_def)
  have z: "''zz'' \<notin> fst ` set (inflight (g_queue busy_server))"
    by (simp add: busy_server_def rotate_queue_def)
  note T = complete_idempotent [where i = "''j2''" and rnd = "(0, 0)" and rnd' = "(1, 1)"
      and s = busy_server and q = "g_queue busy_server" and ok = False and d = "''boom''"]
  note U = complete_idempotent [where i = "''zz''" and rnd = "(0, 0)" and rnd' = "(1, 1)"
      and s = busy_server and q = "g_queue busy_server" and ok = True and d = "[]"]
  note b = T [THEN conjunct2, THEN conjunct2, THEN conjunct2, THEN conjunct2, THEN conjunct2,
      THEN conjunct2, THEN spec, THEN spec, THEN spec, THEN spec, THEN mp, OF h]
  note c = U [THEN conjunct2, THEN conjunct2, THEN conjunct2, THEN conjunct2, THEN conjunct1,
      THEN mp, OF z]
  note d = U [THEN conjunct2, THEN conjunct2, THEN conjunct2, THEN conjunct2, THEN conjunct2,
      THEN conjunct2, THEN spec, THEN spec, THEN spec, THEN spec, THEN mp, OF h',
      THEN conjunct2, THEN conjunct1, THEN mp, OF z]
  from b have one: "handler (0, 0) complete_j2 busy_server =
       (\<lparr>status = 200, content = Document (JObj [(''ok'', JBool True)]),
         ctype = ''application/json''\<rparr>,
        \<lparr>g_queue = \<lparr>high = [job_seo], low = [job_q1, job_b], inflight = []\<rparr>,
         g_paused_agents = [''seo'']\<rparr>)"
    by (simp add: busy_server_def rotate_queue_def complete_def erase_key_def)
  have k: "''j2'' \<in> fst ` set (inflight (g_queue busy_server))"
    by (simp add: busy_server_def rotate_queue_def)
  from one have n: "''j2'' \<notin> fst ` set (inflight (g_queue (snd (handler (0, 0) complete_j2 busy_server))))"
    by simp
  from b have two: "handler (1, 1) complete_j2 (snd (handler (0, 0) complete_j2 busy_server)) =
       (\<lparr>status = 200, content = Document (JObj [(''ok'', JBool True)]),
         ctype = ''application/json''\<rparr>, snd (handler (0, 0) complete_j2 busy_server))"
    by blast
  from k one n two z c d show ?thesis by blast
qed

section \<open>The route \<open>/control/stop\<close>\<close>

lemma dispatch_stop:
  "http_method r = ''POST'' \<Longrightarrow> url r = ''/control/stop'' \<Longrightarrow> dispatch rnd r s = route_stop r s"
  by (simp add: dispatch_def)

lemma removed_count:
  "length q - length (filter (\<lambda>j. agent j \<noteq> a) q) = length (filter (\<lambda>j. agent j = a) q)"
  using sum_length_filter_compl [of "\<lambda>j. agent j = a" q] by simp

lemma cancel_queued_for_agent_count:
  "fst (cancel_queued_for_agent a q) = length (filter (\<lambda>j. agent j = a) (high q @ low q))"
  by (simp add: cancel_queued_for_agent_eq removed_count)

text \<open>
  Claim C6. For a non-empty agent name \<open>a\<close>, POST \<open>/control/stop?agent=a\<close> inserts \<open>a\<close>
  in the pause set and then makes the call \<open>cancel_queued_for_agent a\<close>: afterwards \<open>a\<close>
  is paused, each lane is the lane before without the jobs of \<open>a\<close>, the inflight table
  is the one before, and the answer is 200 with \<open>{"ok": true, "paused": true,
  "removed": n}\<close>, \<open>n\<close> the number of jobs of \<open>a\<close> that were in the two lanes.
\<close>

theorem control_stop_pauses_and_cancels:
  assumes "http_method r = ''POST''" "url r = ''/control/stop''" "agent_param r = Some a"
  shows "handler rnd r s =
           (\<lparr>status = 200,
             content = Document (JObj [(''ok'', JBool True), (''paused'', JBool True),
               (''removed'', JNum (int (length (filter (\<lambda>j. agent j = a)
                                          (high (g_queue s) @ low (g_queue s))))))]),
             ctype = ''application/json''\<rparr>,
            s\<lparr>g_paused_agents := set_insert a (g_paused_agents s),
              g_queue := snd (cancel_queued_for_agent a (g_queue s))\<rparr>)
         \<and> a \<in> set (g_paused_agents (snd (handler rnd r s)))
         \<and> (\<forall>j \<in> set (high (g_queue (snd (handler rnd r s))))
                 \<union> set (low (g_queue (snd (handler rnd r s)))). agent j \<noteq> a)
         \<and> high (g_queue (snd (handler rnd r s))) = filter (\<lambda>j. agent j \<noteq> a) (high (g_queue s))
         \<and> low (g_queue (snd (handler rnd r s))) = filter (\<lambda>j. agent j \<noteq> a) (low (g_queue s))
         \<and> inflight (g_queue (snd (handler rnd r s))) = inflight (g_queue s)"
proof -
  have h: "handler rnd r s =
           (\<lparr>status = 200,
             content = Document (JObj [(''ok'', JBool True), (''paused'', JBool True),
               (''removed'', JNum (int (length (filter (\<lambda>j. agent j = a)
                                          (high (g_queue s) @ low (g_queue s))))))]),
             ctype = ''application/json''\<rparr>,
            s\<lparr>g_paused_agents := set_insert a (g_paused_agents s),
              g_queue := snd (cancel_queued_for_agent a (g_queue s))\<rparr>)"
    using assms cancel_queued_for_agent_count [of a "g_queue s"]
    by (simp add: handler_def dispatch_stop route_stop_def json_response_def send_response_def
        MHD_HTTP_OK_def case_prod_beta)
  have p: "a \<in> set (set_insert a ps)" for ps
    by (simp add: set_insert_def)
  from h p show ?thesis
    by (auto simp add: cancel_queued_for_agent_eq)
qed

text \<open>
  Scenario S4 on a server that holds three queued jobs of the agent among jobs of other
  agents and an inflight job of the agent.
\<close>

theorem control_stop_pauses_and_cancels_witness:
  "http_method stop_rag = ''POST'' \<and> url stop_rag = ''/control/stop''
   \<and> agent_param stop_rag = Some ''rag''
   \<and> handler (0, 0) stop_rag three_for_rag =
       (\<lparr>status = 200,
         content = Document (JObj [(''ok'', JBool True), (''paused'', JBool True),
                                   (''removed'', JNum 3)]),
         ctype = ''application/json''\<rparr>,
        \<lparr>g_queue = \<lparr>high = [job_seo], low = [job_b], inflight = [(''j9'', job_q2)]\<rparr>,
         g_paused_agents = [''seo'', ''rag'']\<rparr>)"
proof -
  have m: "http_method stop_rag = ''POST''" and u: "url stop_rag = ''/control/stop''"
    and a: "agent_param stop_rag = Some ''rag''"
    by (simp_all add: stop_rag_def agent_param_def parse_query_def)
  note T = control_stop_pauses_and_cancels [OF m u a, of "(0, 0)" three_for_rag, THEN conjunct1]
  from T have "handler (0, 0) stop_rag three_for_rag =
       (\<lparr>status = 200,
         content = Document (JObj [(''ok'', JBool True), (''paused'', JBool True),
                                   (''removed'', JNum 3)]),
         ctype = ''application/json''\<rparr>,
        \<lparr>g_queue = \<lparr>high = [job_seo], low = [job_b], inflight = [(''j9'', job_q2)]\<rparr>,
         g_paused_agents = [''seo'', ''rag'']\<rparr>)"
    by (simp add: three_for_rag_def cancel_queued_for_agent_eq set_insert_def
        job_q1_def job_q2_def job_seo_def job_b_def job_again_def)
  with m u a show ?thesis by blast
qed

section \<open>The route \<open>/enqueue\<close>\<close>

lemma dispatch_enqueue:
  "http_method r = ''POST'' \<Longrightarrow> url r = ''/enqueue'' \<Longrightarrow> dispatch rnd r s = route_enqueue rnd r s"
  by (simp add: dispatch_def)

lemma route_enqueue_string:
  assumes "body r = Some (JObj ms)"
    and "value_string (JObj ms) ''id'' (gen_id (fst rnd) (snd rnd)) = Inr i"
    and "at_string (JObj ms) ''agent'' = Inr a" "at_string (JObj ms) ''model'' = Inr m"
    and "value_string (JObj ms) ''priority'' ''low'' = Inr p"
  shows "route_enqueue rnd r s =
     Inr (\<lparr>status = 200, content = Document (JObj [(''id'', JStr i)]),
           ctype = ''application/json''\<rparr>,
          s\<lparr>g_queue := snd (enqueue
                \<lparr>job_id = i, agent = a, model = m, priority = p,
                 payload = (case map_of ms ''payload'' of None \<Rightarrow> JObj [] | Some v \<Rightarrow> v)\<rparr>
                (g_queue s))\<rparr>)"
  using assms
  by (simp add: route_enqueue_def bind_exn_def value_json_def json_response_def
      send_response_def MHD_HTTP_OK_def split: option.splits)

lemma route_enqueue_type_error:
  assumes "body r = Some (JObj ms)"
    and "value_string (JObj ms) ''id'' (gen_id (fst rnd) (snd rnd)) = Inr i"
    and "at_string (JObj ms) ''agent'' = Inr a" "at_string (JObj ms) ''model'' = Inr m"
    and "value_string (JObj ms) ''priority'' ''low'' = Inl e"
  shows "route_enqueue rnd r s = Inl e"
  using assms by (simp add: route_enqueue_def bind_exn_def)

text \<open>
  The lane and the stored priority of an enqueued job. For a POST to \<open>/enqueue\<close> whose
  body is an object with string members \<open>agent\<close> and \<open>model\<close> and a string \<open>id\<close> or none: when \<open>priority\<close> is
  absent the stored job has priority \<open>low\<close> and is appended to the low lane; when
  \<open>priority\<close> is a string the stored job keeps that very string as its priority and is
  appended to the high lane if the string is \<open>high\<close> and to the low lane if it is any
  other string; when \<open>priority\<close> is not a string the request is answered 400 and no job
  is stored.
\<close>

theorem enqueue_priority_lane:
  assumes "http_method r = ''POST''" "url r = ''/enqueue''" "body r = Some (JObj ms)"
    and "value_string (JObj ms) ''id'' (gen_id (fst rnd) (snd rnd)) = Inr i"
    and "at_string (JObj ms) ''agent'' = Inr a" "at_string (JObj ms) ''model'' = Inr m"
  shows
    "(map_of ms ''priority'' = None \<longrightarrow>
        handler rnd r s =
          (\<lparr>status = 200, content = Document (JObj [(''id'', JStr i)]),
            ctype = ''application/json''\<rparr>,
           s\<lparr>g_queue := (g_queue s)\<lparr>low := low (g_queue s) @
              [\<lparr>job_id = i, agent = a, model = m, priority = ''low'',
                payload = (case map_of ms ''payload'' of None \<Rightarrow> JObj [] | Some v \<Rightarrow> v)\<rparr>]\<rparr>\<rparr>))
     \<and> (\<forall>p. map_of ms ''priority'' = Some (JStr p) \<longrightarrow>
        handler rnd r s =
          (\<lparr>status = 200, content = Document (JObj [(''id'', JStr i)]),
            ctype = ''application/json''\<rparr>,
           s\<lparr>g_queue :=
             (if p = ''high''
              then (g_queue s)\<lparr>high := high (g_queue s) @
                [\<lparr>job_id = i, agent = a, model = m, priority = p,
                  payload = (case map_of ms ''payload'' of None \<Rightarrow> JObj [] | Some v \<Rightarrow> v)\<rparr>]\<rparr>
              else (g_queue s)\<lparr>low := low (g_queue s) @
                [\<lparr>job_id = i, agent = a, model = m, priority = p,
                  payload = (case map_of ms ''payload'' of None \<Rightarrow> JObj [] | Some v \<Rightarrow> v)\<rparr>]\<rparr>)\<rparr>))
     \<and> (\<forall>v. map_of ms ''priority'' = Some v \<and> (\<forall>p. v \<noteq> JStr p) \<longrightarrow>
        handler rnd r s =
          (\<lparr>status = 400, content = What type_error, ctype = ''application/json''\<rparr>, s))"
proof (intro conjI allI impI)
  assume "map_of ms ''priority'' = None"
  then have "value_string (JObj ms) ''priority'' ''low'' = Inr ''low''"
    by (simp add: value_string_def)
  from route_enqueue_string [OF assms(3-6) this, of s]
  show "handler rnd r s =
          (\<lparr>status = 200, content = Document (JObj [(''id'', JStr i)]),
            ctype = ''application/json''\<rparr>,
           s\<lparr>g_queue := (g_queue s)\<lparr>low := low (g_queue s) @
              [\<lparr>job_id = i, agent = a, model = m, priority = ''low'',
                payload = (case map_of ms ''payload'' of None \<Rightarrow> JObj [] | Some v \<Rightarrow> v)\<rparr>]\<rparr>\<rparr>)"
    by (simp add: handler_def dispatch_enqueue assms(1,2) enqueue_def)
next
  fix p
  assume "map_of ms ''priority'' = Some (JStr p)"
  then have "value_string (JObj ms) ''priority'' ''low'' = Inr p"
    by (simp add: value_string_def)
  from route_enqueue_string [OF assms(3-6) this, of s]
  show "handler rnd r s =
          (\<lparr>status = 200, content = Document (JObj [(''id'', JStr i)]),
            ctype = ''application/json''\<rparr>,
           s\<lparr>g_queue :=
             (if p = ''high''
              then (g_queue s)\<lparr>high := high (g_queue s) @
                [\<lparr>job_id = i, agent = a, model = m, priority = p,
                  payload = (case map_of ms ''payload'' of None \<Rightarrow> JObj [] | Some v \<Rightarrow> v)\<rparr>]\<rparr>
              else (g_queue s)\<lparr>low := low (g_queue s) @
                [\<lparr>job_id = i, agent = a, model = m, priority = p,
                  payload = (case map_of ms ''payload'' of None \<Rightarrow> JObj [] | Some v \<Rightarrow> v)\<rparr>]\<rparr>)\<rparr>)"
    by (simp add: handler_def dispatch_enqueue assms(1,2) enqueue_def)
next
  fix v
  assume v: "map_of ms ''priority'' = Some v \<and> (\<forall>p. v \<noteq> JStr p)"
  then have "value_string (JObj ms) ''priority'' ''low'' = Inl type_error"
    by (cases v) (simp_all add: value_string_def)
  from route_enqueue_type_error [OF assms(3-6) this, of s]
  show "handler rnd r s =
          (\<lparr>status = 400, content = What type_error, ctype = ''application/json''\<rparr>, s)"
    by (simp add: handler_def dispatch_enqueue assms(1,2) send_response_def
        MHD_HTTP_BAD_REQUEST_def)
qed

text \<open>
  Four requests to an idle server: without priority, with priority \<open>urgent\<close>, with
  priority \<open>high\<close>, and with the number 5 as priority.
\<close>

theorem enqueue_priority_lane_witness:
  "g_queue (snd (handler (0, 0) (enqueue_request plain_body) idle_server)) =
     \<lparr>high = [],
      low = [\<lparr>job_id = ''u3'', agent = ''rag'', model = ''m'', priority = ''low'',
              payload = JObj [(''q'', JNum 1)]\<rparr>],
      inflight = []\<rparr>
   \<and> g_queue (snd (handler (0, 0) (enqueue_request urgent_body) idle_server)) =
     \<lparr>high = [],
      low = [\<lparr>job_id = ''u1'', agent = ''rag'', model = ''m'', priority = ''urgent'',
              payload = JObj []\<rparr>],
      inflight = []\<rparr>
   \<and> g_queue (snd (handler (0, 0) (enqueue_request high_body) idle_server)) =
     \<lparr>high = [\<lparr>job_id = ''u4'', agent = ''rag'', model = ''m'', priority = ''high'',
               payload = JObj []\<rparr>],
      low = [], inflight = []\<rparr>
   \<and> handler (0, 0) (enqueue_request numeric_body) idle_server =
     (\<lparr>status = 400, content = What type_error, ctype = ''application/json''\<rparr>, idle_server)"
proof -
  note T = enqueue_priority_lane [where rnd = "(0, 0)" and s = idle_server and a = "''rag''"
      and m = "''m''"]
  have m: "http_method (enqueue_request ms) = ''POST''" and u: "url (enqueue_request ms) = ''/enqueue''"
    and b: "body (enqueue_request ms) = Some (JObj ms)" for ms
    by (simp_all add: enqueue_request_def)
  have p: "value_string (JObj plain_body) ''id'' (gen_id (fst (0, 0)) (snd (0, 0))) = Inr ''u3''"
    "at_string (JObj plain_body) ''agent'' = Inr ''rag''"
    "at_string (JObj plain_body) ''model'' = Inr ''m''"
    "map_of plain_body ''priority'' = None"
    by (simp_all add: plain_body_def value_string_def at_string_def)
  have g: "value_string (JObj urgent_body) ''id'' (gen_id (fst (0, 0)) (snd (0, 0))) = Inr ''u1''"
    "at_string (JObj urgent_body) ''agent'' = Inr ''rag''"
    "at_string (JObj urgent_body) ''model'' = Inr ''m''"
    "map_of urgent_body ''priority'' = Some (JStr ''urgent'')"
    by (simp_all add: urgent_body_def value_string_def at_string_def)
  have h: "value_string (JObj high_body) ''id'' (gen_id (fst (0, 0)) (snd (0, 0))) = Inr ''u4''"
    "at_string (JObj high_body) ''agent'' = Inr ''rag''"
    "at_string (JObj high_body) ''model'' = Inr ''m''"
    "map_of high_body ''priority'' = Some (JStr ''high'')"
    by (simp_all add: high_body_def value_string_def at_string_def)
  have n: "value_string (JObj numeric_body) ''id'' (gen_id (fst (0, 0)) (snd (0, 0))) = Inr ''u2''"
    "at_string (JObj numeric_body) ''agent'' = Inr ''rag''"
    "at_string (JObj numeric_body) ''model'' = Inr ''m''"
    "map_of numeric_body ''priority'' = Some (JNum 5) \<and> (\<forall>p. JNum 5 \<noteq> JStr p)"
    by (simp_all add: numeric_body_def value_string_def at_string_def)
  note one = T [OF m u b p(1-3), THEN conjunct1, THEN mp, OF p(4)]
  note two = T [OF m u b g(1-3), THEN conjunct2, THEN conjunct1, THEN spec, THEN mp, OF g(4)]
  note three = T [OF m u b h(1-3), THEN conjunct2, THEN conjunct1, THEN spec, THEN mp, OF h(4)]
  note four = T [OF m u b n(1-3), THEN conjunct2, THEN conjunct2, THEN spec, THEN mp, OF n(4)]
  from one have one': "g_queue (snd (handler (0, 0) (enqueue_request plain_body) idle_server)) =
     \<lparr>high = [],
      low = [\<lparr>job_id = ''u3'', agent = ''rag'', model = ''m'', priority = ''low'',
              payload = JObj [(''q'', JNum 1)]\<rparr>],
      inflight = []\<rparr>"
    by (simp add: idle_server_def empty_queue_def plain_body_def)
  from two have two': "g_queue (snd (handler (0, 0) (enqueue_request urgent_body) idle_server)) =
     \<lparr>high = [],
      low = [\<lparr>job_id = ''u1'', agent = ''rag'', model = ''m'', priority = ''urgent'',
              payload = JObj []\<rparr>],
      inflight = []\<rparr>"
    by (simp add: idle_server_def empty_queue_def urgent_body_def)
  from three have three': "g_queue (snd (handler (0, 0) (enqueue_request high_body) idle_server)) =
     \<lparr>high = [\<lparr>job_id = ''u4'', agent = ''rag'', model = ''m'', priority = ''high'',
               payload = JObj []\<rparr>],
      low = [], inflight = []\<rparr>"
    by (simp add: idle_server_def empty_queue_def high_body_def)
  from one' two' three' four show ?thesis by blast
qed

text \<open>
  Claim C4: a job enqueued with a priority other than \<open>high\<close> is stored with the
  priority \<open>low\<close> in the low lane. The lane is as claimed. The stored priority is not:
  \<open>job.hpp\<close> gives the field the values \<open>high\<close> and \<open>low\<close>, yet the handler stores
  the string of the request as it is. A request with the priority \<open>urgent\<close> is
  answered 200, its job is appended to the low lane with the priority \<open>urgent\<close>, and
  the dequeue that follows hands the job out with the priority \<open>urgent\<close>.
\<close>

theorem enqueue_stores_unknown_priority:
  "handler (0, 0) (enqueue_request urgent_body) idle_server =
     (\<lparr>status = 200, content = Document (JObj [(''id'', JStr ''u1'')]),
       ctype = ''application/json''\<rparr>,
      \<lparr>g_queue = \<lparr>high = [],
                  low = [\<lparr>job_id = ''u1'', agent = ''rag'', model = ''m'', priority = ''urgent'',
                          payload = JObj []\<rparr>],
                  inflight = []\<rparr>,
       g_paused_agents = []\<rparr>)
   \<and> map priority (low (g_queue (snd (handler (0, 0) (enqueue_request urgent_body) idle_server))))
       \<noteq> [''low'']
   \<and> content (fst (handler (0, 0) (agent_request ''GET'' ''/dequeue'' ''rag'')
                     (snd (handler (0, 0) (enqueue_request urgent_body) idle_server)))) =
       Document (JObj [(''id'', JStr ''u1''), (''agent'', JStr ''rag''), (''model'', JStr ''m''),
                       (''priority'', JStr ''urgent''), (''payload'', JObj [])])"
  by (simp add: urgent_body_def http_eval job_json_def MHD_HTTP_OK_def)

section \<open>The pause set\<close>

lemma dispatch_pause:
  "http_method r = ''POST'' \<Longrightarrow> url r = ''/control/pause'' \<Longrightarrow> dispatch rnd r s = route_pause r s"
  by (simp add: dispatch_def)

lemma dispatch_dequeue:
  "http_method r = ''GET'' \<Longrightarrow> url r = ''/dequeue'' \<Longrightarrow> dispatch rnd r s = route_dequeue r s"
  by (simp add: dispatch_def)

lemma keeps_paused_routes:
  assumes "a \<in> set (g_paused_agents s)"
  shows "keeps_paused a (route_enqueue rnd r s)"
    and "keeps_paused a (route_dequeue r s)"
    and "keeps_paused a (route_stats s)"
    and "keeps_paused a (route_pause r s)"
    and "keeps_paused a (route_state s)"
    and "keeps_paused a (route_jobs r s)"
    and "keeps_paused a (route_complete r s)"
    and "keeps_paused a (route_peek r s)"
    and "keeps_paused a (route_skip_next r s)"
    and "keeps_paused a (route_bring_forward r s)"
    and "keeps_paused a (route_stop r s)"
proof -
  show "keeps_paused a (route_enqueue rnd r s)"
    using assms
    by (simp add: keeps_paused_def route_enqueue_def bind_exn_def Let_def
        split: sum.splits option.splits)
  show "keeps_paused a (route_dequeue r s)"
    using assms
    by (simp add: keeps_paused_def route_dequeue_def split: option.splits prod.splits)
  show "keeps_paused a (route_stats s)"
    using assms by (simp add: keeps_paused_def route_stats_def Let_def split: prod.splits)
  show "keeps_paused a (route_pause r s)"
    using assms by (simp add: keeps_paused_def route_pause_def set_insert_def split: option.splits)
  show "keeps_paused a (route_state s)"
    using assms by (simp add: keeps_paused_def route_state_def)
  show "keeps_paused a (route_jobs r s)"
    using assms by (simp add: keeps_paused_def route_jobs_def split: option.splits prod.splits)
  show "keeps_paused a (route_complete r s)"
    using assms
    by (simp add: keeps_paused_def route_complete_def bind_exn_def Let_def
        split: sum.splits option.splits)
  show "keeps_paused a (route_peek r s)"
    using assms by (simp add: keeps_paused_def route_peek_def split: option.splits)
  show "keeps_paused a (route_skip_next r s)"
    using assms by (simp add: keeps_paused_def route_skip_next_def split: option.splits prod.splits)
  show "keeps_paused a (route_bring_forward r s)"
    using assms
    by (simp add: keeps_paused_def route_bring_forward_def split: option.splits prod.splits)
  show "keeps_paused a (route_stop r s)"
    using assms
    by (simp add: keeps_paused_def route_stop_def set_insert_def Let_def
        split: option.splits prod.splits)
qed

lemma keeps_paused_resume:
  assumes "a \<in> set (g_paused_agents s)" "agent_param r \<noteq> Some a"
  shows "keeps_paused a (route_resume r s)"
  using assms by (auto simp add: keeps_paused_def route_resume_def set_erase_def split: option.splits)

lemma keeps_paused_dispatch:
  assumes "a \<in> set (g_paused_agents s)" "\<not> is_resume a r"
  shows "keeps_paused a (dispatch rnd r s)"
proof (cases "http_method r = ''POST'' \<and> url r = ''/control/resume''")
  case True
  with assms(2) have "agent_param r \<noteq> Some a" by (simp add: is_resume_def)
  from keeps_paused_resume [OF assms(1) this] True show ?thesis
    by (simp add: dispatch_def)
next
  case False
  have "keeps_paused a (Inr (x, s))" for x
    using assms(1) by (simp add: keeps_paused_def)
  with False show ?thesis
    by (auto simp add: dispatch_def keeps_paused_routes [OF assms(1)])
qed

lemma keeps_paused_handler:
  assumes "a \<in> set (g_paused_agents s)" "\<not> is_resume a r"
  shows "a \<in> set (g_paused_agents (snd (handler rnd r s)))"
  using keeps_paused_dispatch [OF assms, of rnd] assms(1)
  by (auto simp add: handler_def keeps_paused_def split: sum.splits)

lemma keeps_paused_serve:
  "a \<in> set (g_paused_agents s) \<Longrightarrow> \<forall>x \<in> set rs. \<not> is_resume a (snd x) \<Longrightarrow>
   a \<in> set (g_paused_agents (serve rs s))"
proof (induction rs arbitrary: s)
  case Nil
  then show ?case by simp
next
  case (Cons x rs)
  from Cons.prems have "\<not> is_resume a (snd x)" by simp
  from keeps_paused_handler [OF Cons.prems(1) this]
  have "a \<in> set (g_paused_agents (snd (handler (fst x) (snd x) s)))" .
  moreover from Cons.prems have "\<forall>y \<in> set rs. \<not> is_resume a (snd y)" by simp
  ultimately show ?case using Cons.IH by simp
qed

lemma paused_dequeue:
  assumes "http_method d = ''GET''" "url d = ''/dequeue''" "agent_param d = Some a"
    and "a \<in> set (g_paused_agents s)"
  shows "handler rnd d s = (\<lparr>status = 204, content = NoBody, ctype = ''text/plain''\<rparr>, s)"
  using assms
  by (simp add: handler_def dispatch_dequeue route_dequeue_def send_response_def
      MHD_HTTP_NO_CONTENT_def)

lemma pause_inserts:
  assumes "http_method p = ''POST''" "url p = ''/control/pause''" "agent_param p = Some a"
  shows "a \<in> set (g_paused_agents (snd (handler rnd p s)))"
  using assms by (simp add: handler_def dispatch_pause route_pause_def set_insert_def)

lemma outcome_routes:
  "outcome (route_enqueue rnd r (s\<lparr>g_paused_agents := ps\<rparr>)) = outcome (route_enqueue rnd r s)"
  "outcome (route_stats (s\<lparr>g_paused_agents := ps\<rparr>)) = outcome (route_stats s)"
  "outcome (route_pause r (s\<lparr>g_paused_agents := ps\<rparr>)) = outcome (route_pause r s)"
  "outcome (route_resume r (s\<lparr>g_paused_agents := ps\<rparr>)) = outcome (route_resume r s)"
  "outcome (route_jobs r (s\<lparr>g_paused_agents := ps\<rparr>)) = outcome (route_jobs r s)"
  "outcome (route_complete r (s\<lparr>g_paused_agents := ps\<rparr>)) = outcome (route_complete r s)"
  "outcome (route_peek r (s\<lparr>g_paused_agents := ps\<rparr>)) = outcome (route_peek r s)"
  "outcome (route_skip_next r (s\<lparr>g_paused_agents := ps\<rparr>)) = outcome (route_skip_next r s)"
  "outcome (route_bring_forward r (s\<lparr>g_paused_agents := ps\<rparr>)) = outcome (route_bring_forward r s)"
  "outcome (route_stop r (s\<lparr>g_paused_agents := ps\<rparr>)) = outcome (route_stop r s)"
proof -
  show "outcome (route_enqueue rnd r (s\<lparr>g_paused_agents := ps\<rparr>)) = outcome (route_enqueue rnd r s)"
    by (simp add: outcome_def route_enqueue_def bind_exn_def Let_def
        split: sum.splits option.splits)
  show "outcome (route_stats (s\<lparr>g_paused_agents := ps\<rparr>)) = outcome (route_stats s)"
    by (simp add: outcome_def route_stats_def Let_def split: prod.splits)
  show "outcome (route_pause r (s\<lparr>g_paused_agents := ps\<rparr>)) = outcome (route_pause r s)"
    by (simp add: outcome_def route_pause_def split: option.splits)
  show "outcome (route_resume r (s\<lparr>g_paused_agents := ps\<rparr>)) = outcome (route_resume r s)"
    by (simp add: outcome_def route_resume_def split: option.splits)
  show "outcome (route_jobs r (s\<lparr>g_paused_agents := ps\<rparr>)) = outcome (route_jobs r s)"
    by (simp add: outcome_def route_jobs_def split: option.splits prod.splits)
  show "outcome (route_complete r (s\<lparr>g_paused_agents := ps\<rparr>)) = outcome (route_complete r s)"
    by (simp add: outcome_def route_complete_def bind_exn_def Let_def
        split: sum.splits option.splits)
  show "outcome (route_peek r (s\<lparr>g_paused_agents := ps\<rparr>)) = outcome (route_peek r s)"
    by (simp add: outcome_def route_peek_def split: option.splits)
  show "outcome (route_skip_next r (s\<lparr>g_paused_agents := ps\<rparr>)) = outcome (route_skip_next r s)"
    by (simp add: outcome_def route_skip_next_def split: option.splits prod.splits)
  show "outcome (route_bring_forward r (s\<lparr>g_paused_agents := ps\<rparr>)) = outcome (route_bring_forward r s)"
    by (simp add: outcome_def route_bring_forward_def split: option.splits prod.splits)
  show "outcome (route_stop r (s\<lparr>g_paused_agents := ps\<rparr>)) = outcome (route_stop r s)"
    by (simp add: outcome_def route_stop_def Let_def split: option.splits prod.splits)
qed

lemma outcome_dispatch:
  assumes "\<not> (http_method r = ''GET'' \<and> (url r = ''/dequeue'' \<or> url r = ''/control/state''))"
  shows "outcome (dispatch rnd r (s\<lparr>g_paused_agents := ps\<rparr>)) = outcome (dispatch rnd r s)"
proof -
  have "outcome (Inr (x, s\<lparr>g_paused_agents := ps\<rparr>)) = outcome (Inr (x, s))" for x
    by (simp add: outcome_def)
  with assms show ?thesis
    by (auto simp add: dispatch_def outcome_routes)
qed

lemma handler_outcome:
  "(fst (handler rnd r s), g_queue (snd (handler rnd r s))) =
     (case outcome (dispatch rnd r s) of
        Inr x \<Rightarrow> x
      | Inl e \<Rightarrow> (send_response MHD_HTTP_BAD_REQUEST (What e) ''application/json'', g_queue s))"
  by (simp add: handler_def outcome_def split: sum.splits)

lemma pause_set_not_consulted:
  assumes "\<not> (http_method r = ''GET'' \<and> (url r = ''/dequeue'' \<or> url r = ''/control/state''))"
  shows "fst (handler rnd r (s\<lparr>g_paused_agents := ps\<rparr>)) = fst (handler rnd r s)"
    and "g_queue (snd (handler rnd r (s\<lparr>g_paused_agents := ps\<rparr>))) = g_queue (snd (handler rnd r s))"
proof -
  have "(fst (handler rnd r (s\<lparr>g_paused_agents := ps\<rparr>)),
         g_queue (snd (handler rnd r (s\<lparr>g_paused_agents := ps\<rparr>)))) =
        (fst (handler rnd r s), g_queue (snd (handler rnd r s)))"
    unfolding handler_outcome outcome_dispatch [OF assms] by (simp split: sum.splits)
  then show "fst (handler rnd r (s\<lparr>g_paused_agents := ps\<rparr>)) = fst (handler rnd r s)"
    and "g_queue (snd (handler rnd r (s\<lparr>g_paused_agents := ps\<rparr>))) = g_queue (snd (handler rnd r s))"
    by simp_all
qed

text \<open>
  Claim C3. After a POST \<open>/control/pause?agent=a\<close> with a non-empty name \<open>a\<close> and any
  list of further requests none of which is a POST \<open>/control/resume?agent=a\<close>, a GET
  \<open>/dequeue?agent=a\<close> is answered 204 with an empty body and the lanes, the inflight
  table and the pause set are the ones before it. The pause set is read by no other
  route than \<open>/dequeue\<close> and \<open>/control/state\<close>: the answer to any other request
  (enqueue, complete, cancel, peek, skip_next, bring_forward among them) and the queue
  after it are the same whatever the pause set holds.
\<close>

theorem pause_gates_dequeue:
  assumes "http_method p = ''POST''" "url p = ''/control/pause''" "agent_param p = Some a"
    and "\<forall>x \<in> set rs. \<not> is_resume a (snd x)"
    and "http_method d = ''GET''" "url d = ''/dequeue''" "agent_param d = Some a"
  shows "handler rnd' d (serve rs (snd (handler rnd p s))) =
           (\<lparr>status = 204, content = NoBody, ctype = ''text/plain''\<rparr>,
            serve rs (snd (handler rnd p s)))
         \<and> (\<forall>r rn t ps.
              \<not> (http_method r = ''GET'' \<and> (url r = ''/dequeue'' \<or> url r = ''/control/state'')) \<longrightarrow>
              fst (handler rn r (t\<lparr>g_paused_agents := ps\<rparr>)) = fst (handler rn r t)
              \<and> g_queue (snd (handler rn r (t\<lparr>g_paused_agents := ps\<rparr>))) =
                  g_queue (snd (handler rn r t)))"
proof (intro conjI allI impI)
  from pause_inserts [OF assms(1-3)]
  have "a \<in> set (g_paused_agents (snd (handler rnd p s)))" .
  from keeps_paused_serve [OF this assms(4)]
  have "a \<in> set (g_paused_agents (serve rs (snd (handler rnd p s))))" .
  from paused_dequeue [OF assms(5-7) this]
  show "handler rnd' d (serve rs (snd (handler rnd p s))) =
           (\<lparr>status = 204, content = NoBody, ctype = ''text/plain''\<rparr>,
            serve rs (snd (handler rnd p s)))" .
next
  fix r :: request and rn t ps
  assume h: "\<not> (http_method r = ''GET'' \<and> (url r = ''/dequeue'' \<or> url r = ''/control/state''))"
  from pause_set_not_consulted(1) [OF h]
  show "fst (handler rn r (t\<lparr>g_paused_agents := ps\<rparr>)) = fst (handler rn r t)" .
  from pause_set_not_consulted(2) [OF h]
  show "g_queue (snd (handler rn r (t\<lparr>g_paused_agents := ps\<rparr>))) = g_queue (snd (handler rn r t))" .
qed

text \<open>
  Scenario S3 on a server with a queued job of the agent: the agent is paused; a job
  is enqueued for it, another agent is resumed and the agent is paused again; the
  dequeue is answered 204 and the jobs of the agent stay queued. A peek for the paused
  agent is answered as on the server before the pause.
\<close>

theorem pause_gates_dequeue_witness:
  "agent_param (agent_request ''POST'' ''/control/pause'' ''rag'') = Some ''rag''
   \<and> map (is_resume ''rag'' \<circ> snd) during_pause = [False, False, False]
   \<and> agent_param (agent_request ''GET'' ''/dequeue'' ''rag'') = Some ''rag''
   \<and> serve during_pause
        (snd (handler (0, 0) (agent_request ''POST'' ''/control/pause'' ''rag'') busy_server)) =
       \<lparr>g_queue = \<lparr>high = [job_seo, \<lparr>job_id = ''u4'', agent = ''rag'', model = ''m'',
                                     priority = ''high'', payload = JObj []\<rparr>],
                   low = [job_q1, job_b], inflight = [(''j2'', job_q2)]\<rparr>,
        g_paused_agents = [''rag'']\<rparr>
   \<and> handler (0, 0) (agent_request ''GET'' ''/dequeue'' ''rag'')
        (serve during_pause
          (snd (handler (0, 0) (agent_request ''POST'' ''/control/pause'' ''rag'') busy_server))) =
       (\<lparr>status = 204, content = NoBody, ctype = ''text/plain''\<rparr>,
        serve during_pause
          (snd (handler (0, 0) (agent_request ''POST'' ''/control/pause'' ''rag'') busy_server)))
   \<and> fst (handler (0, 0) (agent_request ''GET'' ''/peek'' ''rag'')
            (busy_server\<lparr>g_paused_agents := [''seo'', ''rag'']\<rparr>)) =
       fst (handler (0, 0) (agent_request ''GET'' ''/peek'' ''rag'') busy_server)"
proof -
  have m: "http_method (agent_request mt u a) = mt" and u: "url (agent_request mt u a) = u"
    and a: "agent_param (agent_request mt u ''rag'') = Some ''rag''" for mt u a
    by (simp_all add: agent_request_def agent_param_def parse_query_def)
  have rs: "\<forall>x \<in> set during_pause. \<not> is_resume ''rag'' (snd x)"
    by (simp add: during_pause_def is_resume_def agent_request_def enqueue_request_def
        agent_param_def parse_query_def)
  have np: "\<not> (http_method (agent_request ''GET'' ''/peek'' ''rag'') = ''GET'' \<and>
      (url (agent_request ''GET'' ''/peek'' ''rag'') = ''/dequeue'' \<or>
       url (agent_request ''GET'' ''/peek'' ''rag'') = ''/control/state''))"
    by (simp add: agent_request_def)
  note T = pause_gates_dequeue [OF m u a rs m u a, of "(0, 0)" "(0, 0)" busy_server]
  note one = T [THEN conjunct1]
  from T [THEN conjunct2] np
  have two: "fst (handler (0, 0) (agent_request ''GET'' ''/peek'' ''rag'')
            (busy_server\<lparr>g_paused_agents := [''seo'', ''rag'']\<rparr>)) =
       fst (handler (0, 0) (agent_request ''GET'' ''/peek'' ''rag'') busy_server)"
    by blast
  have st: "serve during_pause
        (snd (handler (0, 0) (agent_request ''POST'' ''/control/pause'' ''rag'') busy_server)) =
       \<lparr>g_queue = \<lparr>high = [job_seo, \<lparr>job_id = ''u4'', agent = ''rag'', model = ''m'',
                                     priority = ''high'', payload = JObj []\<rparr>],
                   low = [job_q1, job_b], inflight = [(''j2'', job_q2)]\<rparr>,
        g_paused_agents = [''rag'']\<rparr>"
    by (simp add: during_pause_def handler_def dispatch_def route_pause_def route_resume_def
        route_enqueue_def bind_exn_def value_string_def at_string_def value_json_def
        agent_request_def enqueue_request_def agent_param_def parse_query_def high_body_def
        busy_server_def rotate_queue_def set_insert_def set_erase_def enqueue_def
        json_response_def send_response_def)
  have rs': "map (is_resume ''rag'' \<circ> snd) during_pause = [False, False, False]"
    by (simp add: during_pause_def is_resume_def agent_request_def enqueue_request_def
        agent_param_def parse_query_def)
  from a rs' one two st show ?thesis by blast
qed

section \<open>The id generator\<close>

lemma gen_id_length: "length (gen_id a b) = 32"
  by (simp add: gen_id_def hex16_def)

lemma gen_id_sample: "gen_id 255 (2 ^ 63) = ''00000000000000ff8000000000000000''"
  by code_simp

end
